theory Spec2Isabelle
  imports Complex_Main "HOL-Library.Signed_Division"
begin

section \<open>The 16-button MIDI sampler: data model\<close>

text \<open>
  The embedding follows \<^verbatim>\<open>SamplerPlugin.h\<close>, \<^verbatim>\<open>SamplerPlugin.cpp\<close>,
  \<^verbatim>\<open>SamplerEditor.cpp\<close> and \<^verbatim>\<open>Main.cpp\<close>.

  \<^item> \<^verbatim>\<open>float\<close> and \<^verbatim>\<open>double\<close> values are idealised as \<^typ>\<open>real\<close>: the
    theorems below rely only on comparisons, on sums and on the exact values 0 and 1,
    never on rounding.
  \<^item> A pointer \<^verbatim>\<open>AudioSampleBuffer*\<close> is an address (\<^typ>\<open>nat\<close>) or
    \<^term>\<open>None\<close> for \<^verbatim>\<open>nullptr\<close>; the free store maps the live addresses to
    their buffers. \<^verbatim>\<open>delete\<close> removes the address from the store, so a pointer
    that is still held afterwards dangles, and reading through it is a fault.
  \<^item> Undefined behaviour of the C++ (reading freed memory, an index out of range,
    \<^verbatim>\<open>%\<close> by zero) is the \<^term>\<open>Inl\<close> branch of a sum.
  \<^item> Logging (\<^verbatim>\<open>DEBUG_MIDI\<close>), painting and label texts have no effect on the
    state modelled here and are left out.
\<close>

datatype fault = UseAfterFree | DivideByZero | OutOfBounds

type_synonym addr = nat

text \<open>
  \<^verbatim>\<open>AudioSampleBuffer\<close>: \<^verbatim>\<open>getNumSamples()\<close> frames in each of
  \<^verbatim>\<open>getNumChannels()\<close> channels.
\<close>

record AudioSampleBuffer =
  numSamples :: int
  channels :: "real list list"

definition getNumChannels :: "AudioSampleBuffer \<Rightarrow> int" where
  "getNumChannels b = int (length (channels b))"

type_synonym store = "addr \<Rightarrow> AudioSampleBuffer option"

text \<open>\<^verbatim>\<open>class ButtonSample\<close> with its constructor and \<^verbatim>\<open>clear()\<close>.\<close>

record ButtonSample =
  sampleBuffer :: "addr option"
  filePath :: string
  sourceSampleRate :: real
  isLoaded :: bool
  rootNote :: int

definition ButtonSample_init :: ButtonSample where
  "ButtonSample_init =
     \<lparr>sampleBuffer = None, filePath = [], sourceSampleRate = 0, isLoaded = False, rootNote = 60\<rparr>"

text \<open>
  \<^verbatim>\<open>ButtonSample::clear()\<close> deletes the buffer at once when the pointer is not null;
  the store is returned with the address removed.
\<close>

definition ButtonSample_clear :: "store \<Rightarrow> ButtonSample \<Rightarrow> store \<times> ButtonSample" where
  "ButtonSample_clear hp s =
     ((case sampleBuffer s of None \<Rightarrow> hp | Some a \<Rightarrow> hp(a := None)),
      \<lparr>sampleBuffer = None, filePath = [], sourceSampleRate = 0, isLoaded = False, rootNote = 60\<rparr>)"

text \<open>\<^verbatim>\<open>class ButtonSampleSound\<close>: the sound object the synthesiser holds for a sample.\<close>

record ButtonSampleSound =
  buttonIndex :: int
  snd_sampleBuffer :: "addr option"
  snd_sourceSampleRate :: real
  snd_rootNote :: int

definition appliesToNote :: "ButtonSampleSound \<Rightarrow> int \<Rightarrow> bool" where
  "appliesToNote s midiNote = (midiNote = snd_rootNote s)"

definition appliesToChannel :: "ButtonSampleSound \<Rightarrow> int \<Rightarrow> bool" where
  "appliesToChannel s midiChannel = True"

section \<open>The voice\<close>

text \<open>
  \<^verbatim>\<open>class MidiSamplerVoice\<close> with its member initialisers. The field
  \<open>currentlyPlayingNote\<close> is the state of the base class \<^verbatim>\<open>SynthesiserVoice\<close>
  that \<^verbatim>\<open>clearCurrentNote()\<close> resets (a negative value: no note).
\<close>

record MidiSamplerVoice =
  isPlaying :: bool
  velocity :: real
  position :: real
  pitchRatio :: real
  midiNoteNumber :: int
  v_rootNote :: int
  v_sampleBuffer :: "addr option"
  v_sourceSampleRate :: real
  currentlyPlayingNote :: int

definition MidiSamplerVoice_init :: MidiSamplerVoice where
  "MidiSamplerVoice_init =
     \<lparr>isPlaying = False, velocity = 0, position = 0, pitchRatio = 1, midiNoteNumber = 60,
      v_rootNote = 60, v_sampleBuffer = None, v_sourceSampleRate = 44100,
      currentlyPlayingNote = - 1\<rparr>"

definition clearCurrentNote :: "MidiSamplerVoice \<Rightarrow> MidiSamplerVoice" where
  "clearCurrentNote v = v\<lparr>currentlyPlayingNote := - 1\<rparr>"

text \<open>
  \<^verbatim>\<open>MidiSamplerVoice::startNote\<close>. The sound argument is \<^term>\<open>None\<close> when the
  \<^verbatim>\<open>dynamic_cast\<close> to \<^verbatim>\<open>ButtonSampleSound*\<close> fails. \<^verbatim>\<open>pow(2.0, d / 12.0)\<close> is
  \<^term>\<open>(2::real) powr (d / 12)\<close>.
\<close>

definition startNote ::
  "int \<Rightarrow> real \<Rightarrow> ButtonSampleSound option \<Rightarrow> MidiSamplerVoice \<Rightarrow> MidiSamplerVoice" where
  "startNote note vel sound v =
     (let v1 = v\<lparr>midiNoteNumber := note, velocity := vel, isPlaying := True, position := 0\<rparr>
      in case sound of
           Some buttonSound \<Rightarrow>
             (let v2 = v1\<lparr>v_sampleBuffer := snd_sampleBuffer buttonSound,
                         v_sourceSampleRate := snd_sourceSampleRate buttonSound,
                         v_rootNote := snd_rootNote buttonSound\<rparr>
              in if v_sourceSampleRate v2 > 0
                 then v2\<lparr>pitchRatio := 2 powr (real_of_int (note - v_rootNote v2) / 12)\<rparr>
                 else v2\<lparr>pitchRatio := 1\<rparr>)
         | None \<Rightarrow> v1\<lparr>v_sampleBuffer := None, pitchRatio := 1\<rparr>)"

text \<open>
  \<^verbatim>\<open>MidiSamplerVoice::stopNote\<close>; the first argument is the value of
  \<^verbatim>\<open>OneShotMode::getEnabled()\<close>, a global of the program.
\<close>

definition stopNote :: "bool \<Rightarrow> real \<Rightarrow> bool \<Rightarrow> MidiSamplerVoice \<Rightarrow> MidiSamplerVoice" where
  "stopNote oneShot vel allowTailOff v =
     (if oneShot then v
      else let v1 = v\<lparr>isPlaying := False\<rparr>
           in if \<not> allowTailOff then clearCurrentNote v1 else v1)"

text \<open>\<^verbatim>\<open>static_cast<int>\<close> of a \<^verbatim>\<open>double\<close> truncates towards zero.\<close>

definition truncToInt :: "real \<Rightarrow> int" where
  "truncToInt x = (if 0 \<le> x then \<lfloor>x\<rfloor> else \<lceil>x\<rceil>)"

text \<open>
  The inner loop of \<^verbatim>\<open>renderNextBlock\<close> over the source channels:
  \<^verbatim>\<open>sample += channelData[static_cast<int>(position) % getNumSamples()]\<close>.
  C++ \<^verbatim>\<open>%\<close> truncates (\<^term>\<open>(smod)\<close>) and is undefined for a zero divisor.
\<close>

fun sumChannels :: "real list list \<Rightarrow> int \<Rightarrow> real \<Rightarrow> real \<Rightarrow> fault + real" where
  "sumChannels [] n pos acc = Inr acc"
| "sumChannels (channelData # rest) n pos acc =
     (if n = 0 then Inl DivideByZero
      else let samplePos = truncToInt pos smod n
           in if 0 \<le> samplePos \<and> nat samplePos < length channelData
              then sumChannels rest n pos (acc + channelData ! nat samplePos)
              else Inl OutOfBounds)"

text \<open>
  \<^verbatim>\<open>outputBuffer.getWritePointer(ch)[outputIndex] += x\<close> for every output channel.
\<close>

fun addToOutput :: "real list list \<Rightarrow> int \<Rightarrow> real \<Rightarrow> fault + real list list" where
  "addToOutput [] outputIndex x = Inr []"
| "addToOutput (ch # rest) outputIndex x =
     (if 0 \<le> outputIndex \<and> nat outputIndex < length ch
      then (case addToOutput rest outputIndex x of
              Inl e \<Rightarrow> Inl e
            | Inr rest' \<Rightarrow> Inr (ch[nat outputIndex := ch ! nat outputIndex + x] # rest'))
      else Inl OutOfBounds)"

text \<open>
  The frame loop of \<^verbatim>\<open>renderNextBlock\<close>: the first argument counts the iterations
  still to run, \<open>outputIndex\<close> is \<^verbatim>\<open>startSample + i\<close>. The \<^verbatim>\<open>break\<close> is the
  branch that returns without a recursive call.
\<close>

fun renderFrames ::
  "nat \<Rightarrow> AudioSampleBuffer \<Rightarrow> int \<Rightarrow> MidiSamplerVoice \<Rightarrow> real list list
     \<Rightarrow> fault + (MidiSamplerVoice \<times> real list list)" where
  "renderFrames 0 b outputIndex v out = Inr (v, out)"
| "renderFrames (Suc k) b outputIndex v out =
     (case sumChannels (channels b) (numSamples b) (position v) 0 of
        Inl e \<Rightarrow> Inl e
      | Inr s \<Rightarrow>
          (let sample = s / real_of_int (getNumChannels b);
               v1 = v\<lparr>position := position v + pitchRatio v\<rparr>
           in if position v1 \<ge> real_of_int (numSamples b)
              then Inr (clearCurrentNote (v1\<lparr>isPlaying := False\<rparr>), out)
              else (case addToOutput out outputIndex (sample * velocity v1) of
                      Inl e \<Rightarrow> Inl e
                    | Inr out' \<Rightarrow> renderFrames k b (outputIndex + 1) v1 out')))"

text \<open>\<^verbatim>\<open>MidiSamplerVoice::renderNextBlock\<close>, reading the buffer through the store.\<close>

definition renderNextBlock ::
  "store \<Rightarrow> MidiSamplerVoice \<Rightarrow> real list list \<Rightarrow> int \<Rightarrow> int
     \<Rightarrow> fault + (MidiSamplerVoice \<times> real list list)" where
  "renderNextBlock hp v out startSample n =
     (if v_sampleBuffer v = None \<or> \<not> isPlaying v then Inr (v, out)
      else (case hp (the (v_sampleBuffer v)) of
              None \<Rightarrow> Inl UseAfterFree
            | Some b \<Rightarrow> renderFrames (nat n) b startSample v out))"

text \<open>
  The calls the synthesiser makes on a voice, and their effect on it under a given
  one-shot flag and store. The audio written by a render call is dropped here.
\<close>

datatype voice_call =
  CallStartNote int real "ButtonSampleSound option"
  | CallStopNote real bool
  | CallRenderNextBlock "real list list" int int

fun voice_call_run ::
  "bool \<Rightarrow> store \<Rightarrow> voice_call \<Rightarrow> MidiSamplerVoice \<Rightarrow> fault + MidiSamplerVoice" where
  "voice_call_run oneShot hp (CallStartNote note vel sound) v = Inr (startNote note vel sound v)"
| "voice_call_run oneShot hp (CallStopNote vel allowTailOff) v =
     Inr (stopNote oneShot vel allowTailOff v)"
| "voice_call_run oneShot hp (CallRenderNextBlock out startSample n) v =
     (case renderNextBlock hp v out startSample n of
        Inl e \<Rightarrow> Inl e
      | Inr (v', out') \<Rightarrow> Inr v')"

section \<open>Files, the decoder and MIDI messages\<close>

text \<open>
  The decoder is injected (\<^verbatim>\<open>AudioFormatManager::createReaderFor\<close>). A file is named
  by its full path; the file system says of a path that no such file exists
  (\<^term>\<open>None\<close>), that the file exists and no registered format reads it
  (\<^term>\<open>Some None\<close>), or what its reader delivers. \<^verbatim>\<open>File::getFullPathName()\<close> of
  a file made from a path is that path.
\<close>

record AudioFormatReader =
  lengthInSamples :: int
  sampleRate :: real
  frames :: "real list list"

type_synonym fileSystem = "string \<Rightarrow> AudioFormatReader option option"

definition File_exists :: "fileSystem \<Rightarrow> string \<Rightarrow> bool" where
  "File_exists fs path = (fs path \<noteq> None)"

definition createReaderFor :: "fileSystem \<Rightarrow> string \<Rightarrow> AudioFormatReader option" where
  "createReaderFor fs path = (case fs path of Some (Some reader) \<Rightarrow> Some reader | _ \<Rightarrow> None)"

text \<open>
  A MIDI message is a note-on (\<^verbatim>\<open>isNoteOn()\<close>) with its note number and 7-bit
  velocity, a note-off with its note number, or any other message. MIDI channels are not
  distinguished: \<open>appliesToChannel\<close> is constantly true in this program. A message
  the editor makes for a pad carries the pad's note as it is mapped.
\<close>

datatype MidiMessage = NoteOn int int | NoteOff int | OtherMessage

section \<open>The plugin\<close>

text \<open>
  \<^verbatim>\<open>class SamplerPlugin\<close>. \<open>sounds\<close> and \<open>voices\<close> are the sound list and the voices
  of its \<^verbatim>\<open>Synthesiser\<close>, \<open>midiCollector\<close> the queue of the
  \<^verbatim>\<open>MidiMessageCollector\<close>. \<open>freeStore\<close> and \<open>nextAddr\<close> are the free store and
  the next address \<^verbatim>\<open>new\<close> hands out (an address is never handed out twice).
  \<open>oneShotEnabled\<close> is the global \<^verbatim>\<open>OneShotMode::isEnabled\<close>.
\<close>

record SamplerPlugin =
  sounds :: "ButtonSampleSound list"
  voices :: "MidiSamplerVoice list"
  buttons :: "ButtonSample list"
  noteMapping :: "int list"
  midiNoteSamples :: "ButtonSample list"
  midiCollector :: "MidiMessage list"
  freeStore :: store
  nextAddr :: addr
  oneShotEnabled :: bool

text \<open>The constructor \<^verbatim>\<open>SamplerPlugin::SamplerPlugin()\<close>.\<close>

definition SamplerPlugin_init :: SamplerPlugin where
  "SamplerPlugin_init =
     \<lparr>sounds = [],
      voices = replicate 16 MidiSamplerVoice_init,
      buttons = replicate 16 ButtonSample_init,
      noteMapping = map (\<lambda>i. 36 + int i) [0..<16],
      midiNoteSamples = replicate 128 ButtonSample_init,
      midiCollector = [],
      freeStore = (\<lambda>a. None),
      nextAddr = 0,
      oneShotEnabled = False\<rparr>"

text \<open>
  \<^verbatim>\<open>getNoteMapping\<close> reads \<^verbatim>\<open>noteMapping[buttonIndex]\<close>; \<^verbatim>\<open>Array::operator[]\<close>
  yields the default value 0 for an index out of range.
\<close>

definition getNoteMapping :: "SamplerPlugin \<Rightarrow> int \<Rightarrow> int" where
  "getNoteMapping st buttonIdx =
     (if 0 \<le> buttonIdx \<and> nat buttonIdx < length (noteMapping st)
      then noteMapping st ! nat buttonIdx else 0)"

definition hasSampleForMidiNote :: "SamplerPlugin \<Rightarrow> int \<Rightarrow> bool" where
  "hasSampleForMidiNote st midiNote =
     (midiNote \<ge> 0 \<and> midiNote < int (length (midiNoteSamples st)) \<and>
      isLoaded (midiNoteSamples st ! nat midiNote))"

text \<open>\<^verbatim>\<open>Synthesiser::removeSound(index)\<close>.\<close>

definition removeSound :: "nat \<Rightarrow> ButtonSampleSound list \<Rightarrow> ButtonSampleSound list" where
  "removeSound i xs = take i xs @ drop (Suc i) xs"

text \<open>
  The loop \<^verbatim>\<open>for (int i = synth.getNumSounds() - 1; i >= 0; --i)\<close> that removes every
  sound satisfying a test; the counter \<open>Suc i\<close> stands for the loop variable \<open>i\<close>.
\<close>

fun removeMatching ::
  "(ButtonSampleSound \<Rightarrow> bool) \<Rightarrow> nat \<Rightarrow> ButtonSampleSound list \<Rightarrow> ButtonSampleSound list" where
  "removeMatching P 0 xs = xs"
| "removeMatching P (Suc i) xs =
     removeMatching P i (if P (xs ! i) then removeSound i xs else xs)"

definition clearSample :: "int \<Rightarrow> SamplerPlugin \<Rightarrow> SamplerPlugin" where
  "clearSample buttonIdx st =
     (if buttonIdx \<ge> 0 \<and> buttonIdx < 16
      then (case ButtonSample_clear (freeStore st) (buttons st ! nat buttonIdx) of
              (hp, cleared) \<Rightarrow>
                st\<lparr>buttons := (buttons st)[nat buttonIdx := cleared],
                   freeStore := hp,
                   sounds := removeMatching (\<lambda>sound. buttonIndex sound = buttonIdx)
                               (length (sounds st)) (sounds st)\<rparr>)
      else st)"

definition clearMidiNoteSample :: "int \<Rightarrow> SamplerPlugin \<Rightarrow> SamplerPlugin" where
  "clearMidiNoteSample midiNote st =
     (if midiNote \<ge> 0 \<and> midiNote < 128
      then (case ButtonSample_clear (freeStore st) (midiNoteSamples st ! nat midiNote) of
              (hp, cleared) \<Rightarrow>
                st\<lparr>midiNoteSamples := (midiNoteSamples st)[nat midiNote := cleared],
                   freeStore := hp,
                   sounds := removeMatching
                               (\<lambda>sound. buttonIndex sound = - 1 \<and> snd_rootNote sound = midiNote)
                               (length (sounds st)) (sounds st)\<rparr>)
      else st)"

text \<open>
  The loop of \<^verbatim>\<open>setNoteMapping\<close>: the last sound of the button is removed and a new
  sound with the same buffer and rate and the new root note is added at the end; the
  loop then breaks.
\<close>

fun rebindSound ::
  "int \<Rightarrow> int \<Rightarrow> nat \<Rightarrow> ButtonSampleSound list \<Rightarrow> ButtonSampleSound list" where
  "rebindSound buttonIdx midiNote 0 xs = xs"
| "rebindSound buttonIdx midiNote (Suc i) xs =
     (if buttonIndex (xs ! i) = buttonIdx
      then removeSound i xs @
             [\<lparr>buttonIndex = buttonIdx, snd_sampleBuffer = snd_sampleBuffer (xs ! i),
               snd_sourceSampleRate = snd_sourceSampleRate (xs ! i), snd_rootNote = midiNote\<rparr>]
      else rebindSound buttonIdx midiNote i xs)"

definition setNoteMapping :: "int \<Rightarrow> int \<Rightarrow> SamplerPlugin \<Rightarrow> SamplerPlugin" where
  "setNoteMapping buttonIdx midiNote st =
     (if buttonIdx < 0 \<or> buttonIdx \<ge> 16 then st
      else st\<lparr>noteMapping := (noteMapping st)[nat buttonIdx := midiNote],
              sounds := rebindSound buttonIdx midiNote (length (sounds st)) (sounds st)\<rparr>)"

text \<open>
  \<^verbatim>\<open>loadSample\<close> and \<^verbatim>\<open>loadSampleForMidiNote\<close>: the slot is cleared first, then
  the reader is created; the result is the returned \<^verbatim>\<open>bool\<close> and the new state. The
  new buffer has the reader's channels and \<^verbatim>\<open>lengthInSamples\<close> frames (the narrowing
  of the 64-bit length to \<^verbatim>\<open>int\<close> is taken to keep the value).
\<close>

definition loadSample :: "fileSystem \<Rightarrow> int \<Rightarrow> string \<Rightarrow> SamplerPlugin \<Rightarrow> bool \<times> SamplerPlugin" where
  "loadSample fs buttonIdx file st =
     (if buttonIdx < 0 \<or> buttonIdx \<ge> 16 then (False, st)
      else let st1 = clearSample buttonIdx st
           in case createReaderFor fs file of
                Some reader \<Rightarrow>
                  (let a = nextAddr st1;
                       buffer = \<lparr>numSamples = lengthInSamples reader, channels = frames reader\<rparr>;
                       sample = \<lparr>sampleBuffer = Some a, filePath = file,
                                 sourceSampleRate = sampleRate reader, isLoaded = True,
                                 rootNote = getNoteMapping st1 buttonIdx\<rparr>;
                       sound = \<lparr>buttonIndex = buttonIdx, snd_sampleBuffer = Some a,
                                snd_sourceSampleRate = sourceSampleRate sample,
                                snd_rootNote = rootNote sample\<rparr>
                   in (True, st1\<lparr>buttons := (buttons st1)[nat buttonIdx := sample],
                                 freeStore := (freeStore st1)(a := Some buffer),
                                 nextAddr := Suc a,
                                 sounds := sounds st1 @ [sound]\<rparr>))
              | None \<Rightarrow> (False, st1))"

definition loadSampleForMidiNote ::
  "fileSystem \<Rightarrow> int \<Rightarrow> string \<Rightarrow> SamplerPlugin \<Rightarrow> bool \<times> SamplerPlugin" where
  "loadSampleForMidiNote fs midiNote file st =
     (if midiNote < 0 \<or> midiNote \<ge> 128 then (False, st)
      else let st1 = clearMidiNoteSample midiNote st
           in case createReaderFor fs file of
                Some reader \<Rightarrow>
                  (let a = nextAddr st1;
                       buffer = \<lparr>numSamples = lengthInSamples reader, channels = frames reader\<rparr>;
                       sample = \<lparr>sampleBuffer = Some a, filePath = file,
                                 sourceSampleRate = sampleRate reader, isLoaded = True,
                                 rootNote = midiNote\<rparr>;
                       sound = \<lparr>buttonIndex = - 1, snd_sampleBuffer = Some a,
                                snd_sourceSampleRate = sourceSampleRate sample,
                                snd_rootNote = midiNote\<rparr>
                   in (True, st1\<lparr>midiNoteSamples := (midiNoteSamples st1)[nat midiNote := sample],
                                 freeStore := (freeStore st1)(a := Some buffer),
                                 nextAddr := Suc a,
                                 sounds := sounds st1 @ [sound]\<rparr>))
              | None \<Rightarrow> (False, st1))"

section \<open>The synthesiser's dispatch\<close>

text \<open>
  \<^verbatim>\<open>processBlock\<close> hands the collected MIDI to \<^verbatim>\<open>Synthesiser::renderNextBlock\<close> of
  the JUCE library, which calls back into the voice and sound classes above. What the
  library does in between is written here as far as the program depends on it:
  \<^item> a note-on visits the sounds in order; for each sound that \<open>appliesToNote\<close> it
    first calls \<open>stopNote(1.0f, true)\<close> on the voices whose current note is that note,
    then starts the first voice that has no current note (\<open>canPlaySound\<close> is constantly
    true), or else the voice the library's stealing policy picks; that policy is the
    parameter \<open>steal\<close>;
  \<^item> starting a voice calls \<open>stopNote(0.0f, false)\<close> on it if it has a current note,
    records the note as its current note and calls \<open>startNote\<close>;
  \<^item> a note-off calls \<open>stopNote(velocity, true)\<close> on the voices whose current note is
    that note and whose sound applies to it;
  \<^item> other messages are not modelled, and the messages of a block are applied before
    the block is rendered.
\<close>

fun firstInactive :: "MidiSamplerVoice list \<Rightarrow> nat option" where
  "firstInactive [] = None"
| "firstInactive (v # vs) =
     (if currentlyPlayingNote v < 0 then Some 0 else map_option Suc (firstInactive vs))"

definition findFreeVoice ::
  "(MidiSamplerVoice list \<Rightarrow> nat option) \<Rightarrow> MidiSamplerVoice list \<Rightarrow> nat option" where
  "findFreeVoice steal vs = (case firstInactive vs of Some i \<Rightarrow> Some i | None \<Rightarrow> steal vs)"

definition startVoice ::
  "bool \<Rightarrow> ButtonSampleSound \<Rightarrow> int \<Rightarrow> real \<Rightarrow> MidiSamplerVoice \<Rightarrow> MidiSamplerVoice" where
  "startVoice oneShot sound midiNote vel v =
     startNote midiNote vel (Some sound)
       ((if currentlyPlayingNote v \<ge> 0 then stopNote oneShot 0 False v else v)
          \<lparr>currentlyPlayingNote := midiNote\<rparr>)"

fun synth_noteOn ::
  "(MidiSamplerVoice list \<Rightarrow> nat option) \<Rightarrow> bool \<Rightarrow> int \<Rightarrow> real \<Rightarrow> ButtonSampleSound list
     \<Rightarrow> MidiSamplerVoice list \<Rightarrow> MidiSamplerVoice list" where
  "synth_noteOn steal oneShot midiNote vel [] vs = vs"
| "synth_noteOn steal oneShot midiNote vel (sound # rest) vs =
     (if appliesToNote sound midiNote \<and> appliesToChannel sound 1
      then let vs1 = map (\<lambda>v. if currentlyPlayingNote v = midiNote
                               then stopNote oneShot 1 True v else v) vs;
               vs2 = (case findFreeVoice steal vs1 of
                        None \<Rightarrow> vs1
                      | Some i \<Rightarrow>
                          if i < length vs1
                          then vs1[i := startVoice oneShot sound midiNote vel (vs1 ! i)]
                          else vs1)
           in synth_noteOn steal oneShot midiNote vel rest vs2
      else synth_noteOn steal oneShot midiNote vel rest vs)"

definition synth_noteOff :: "bool \<Rightarrow> int \<Rightarrow> MidiSamplerVoice list \<Rightarrow> MidiSamplerVoice list" where
  "synth_noteOff oneShot midiNote vs =
     map (\<lambda>v. if currentlyPlayingNote v = midiNote \<and> v_rootNote v = midiNote
               then stopNote oneShot 0 True v else v) vs"

fun handleMidiEvent ::
  "(MidiSamplerVoice list \<Rightarrow> nat option) \<Rightarrow> MidiMessage \<Rightarrow> SamplerPlugin \<Rightarrow> SamplerPlugin" where
  "handleMidiEvent steal (NoteOn midiNote vel) st =
     st\<lparr>voices := synth_noteOn steal (oneShotEnabled st) midiNote (real_of_int vel / 127)
                     (sounds st) (voices st)\<rparr>"
| "handleMidiEvent steal (NoteOff midiNote) st =
     st\<lparr>voices := synth_noteOff (oneShotEnabled st) midiNote (voices st)\<rparr>"
| "handleMidiEvent steal OtherMessage st = st"

fun renderVoices ::
  "store \<Rightarrow> MidiSamplerVoice list \<Rightarrow> real list list \<Rightarrow> int
     \<Rightarrow> fault + (MidiSamplerVoice list \<times> real list list)" where
  "renderVoices hp [] out n = Inr ([], out)"
| "renderVoices hp (v # vs) out n =
     (case renderNextBlock hp v out 0 n of
        Inl e \<Rightarrow> Inl e
      | Inr (v', out1) \<Rightarrow>
          (case renderVoices hp vs out1 n of
             Inl e \<Rightarrow> Inl e
           | Inr (vs', out2) \<Rightarrow> Inr (v' # vs', out2)))"

text \<open>
  \<^verbatim>\<open>SamplerPlugin::processBlock\<close>: the collector's queue is drained and appended to
  the host's MIDI, the synthesiser handles the events and renders the voices into the
  buffer, whose frame count is \<open>n\<close>.
\<close>

definition processBlock ::
  "(MidiSamplerVoice list \<Rightarrow> nat option) \<Rightarrow> real list list \<Rightarrow> int \<Rightarrow> MidiMessage list
     \<Rightarrow> SamplerPlugin \<Rightarrow> fault + (SamplerPlugin \<times> real list list)" where
  "processBlock steal buffer n midiMessages st =
     (let allMidi = midiMessages @ midiCollector st;
          st1 = fold (handleMidiEvent steal) allMidi (st\<lparr>midiCollector := []\<rparr>)
      in case renderVoices (freeStore st1) (voices st1) buffer n of
           Inl e \<Rightarrow> Inl e
         | Inr (vs, out) \<Rightarrow> Inr (st1\<lparr>voices := vs\<rparr>, out))"

section \<open>The editor: learn modes, pads, export and import\<close>

text \<open>
  \<^verbatim>\<open>class SamplerEditor\<close>, with the plugin it refers to. The pad components only hold
  what is painted (file name, flash); of them the model keeps that pad \<open>i\<close> exists for
  \<open>0 \<le> i < 16\<close>.
\<close>

record SamplerEditor =
  sampler :: SamplerPlugin
  isMidiLearning :: bool
  isSampleLearning :: bool
  isOneShotMode :: bool
  learningButtonIndex :: int
  sampleLearnButtonIndex :: int
  notePlaying :: "bool list"
  noteVelocities :: "real list"
  pendingNoteOffButton :: int
  pendingNoteOffNote :: int

text \<open>
  The constructor \<^verbatim>\<open>SamplerEditor::SamplerEditor\<close>: one-shot mode is switched on. The
  import of the last used settings file at the end of the constructor is the import
  event below.
\<close>

definition SamplerEditor_init :: "SamplerPlugin \<Rightarrow> SamplerEditor" where
  "SamplerEditor_init plugin =
     \<lparr>sampler = plugin\<lparr>oneShotEnabled := True\<rparr>,
      isMidiLearning = False, isSampleLearning = False, isOneShotMode = True,
      learningButtonIndex = - 1, sampleLearnButtonIndex = - 1,
      notePlaying = replicate 128 False, noteVelocities = replicate 128 0,
      pendingNoteOffButton = - 1, pendingNoteOffNote = - 1\<rparr>"

text \<open>\<^verbatim>\<open>Array::resize(128)\<close> on the note tracking arrays.\<close>

definition resize128 :: "'a \<Rightarrow> 'a list \<Rightarrow> 'a list" where
  "resize128 d xs = take 128 xs @ replicate (128 - length xs) d"

text \<open>\<^verbatim>\<open>SamplerEditor::handleMidiMessage\<close>: note tracking, then MIDI Learn.\<close>

definition trackNote :: "MidiMessage \<Rightarrow> SamplerEditor \<Rightarrow> SamplerEditor" where
  "trackNote msg ed =
     (case msg of
        NoteOn midiNote vel \<Rightarrow>
          if midiNote \<ge> 0 \<and> midiNote < 128
          then let np = (if int (length (notePlaying ed)) \<le> midiNote
                         then resize128 False (notePlaying ed) else notePlaying ed);
                   nv = (if int (length (noteVelocities ed)) \<le> midiNote
                         then resize128 0 (noteVelocities ed) else noteVelocities ed)
               in ed\<lparr>notePlaying := np[nat midiNote := True],
                      noteVelocities := nv[nat midiNote := real_of_int vel / 127]\<rparr>
          else ed
      | NoteOff midiNote \<Rightarrow>
          if midiNote \<ge> 0 \<and> midiNote < 128
          then let np = (if int (length (notePlaying ed)) \<le> midiNote
                         then resize128 False (notePlaying ed) else notePlaying ed);
                   nv = (if int (length (noteVelocities ed)) \<le> midiNote
                         then resize128 0 (noteVelocities ed) else noteVelocities ed)
               in ed\<lparr>notePlaying := np[nat midiNote := False],
                      noteVelocities := nv[nat midiNote := 0]\<rparr>
          else ed
      | OtherMessage \<Rightarrow> ed)"

definition handleMidiMessage :: "MidiMessage \<Rightarrow> SamplerEditor \<Rightarrow> SamplerEditor" where
  "handleMidiMessage msg ed =
     (let ed1 = trackNote msg ed
      in case msg of
           NoteOn midiNote vel \<Rightarrow>
             if isMidiLearning ed1 \<and> learningButtonIndex ed1 \<ge> 0
             then ed1\<lparr>sampler := setNoteMapping (learningButtonIndex ed1) midiNote (sampler ed1),
                      isMidiLearning := False,
                      learningButtonIndex := - 1\<rparr>
             else ed1
         | _ \<Rightarrow> ed1)"

text \<open>
  \<^verbatim>\<open>MainWindow::handleIncomingMidiMessage\<close>: every message is first added to the
  plugin's collector queue, then shown to the editor.
\<close>

definition handleIncomingMidiMessage :: "MidiMessage \<Rightarrow> SamplerEditor \<Rightarrow> SamplerEditor" where
  "handleIncomingMidiMessage message ed =
     handleMidiMessage message
       (ed\<lparr>sampler := (sampler ed)\<lparr>midiCollector := midiCollector (sampler ed) @ [message]\<rparr>\<rparr>)"

text \<open>
  \<^verbatim>\<open>SamplerEditor::buttonClicked\<close> for the MIDI Learn, Sample Learn and One-Shot
  buttons; the One-Shot button carries its toggle state.
\<close>

datatype EditorButton = MidiLearnButton | SampleLearnButton | OneShotButton bool

fun buttonClicked :: "EditorButton \<Rightarrow> SamplerEditor \<Rightarrow> SamplerEditor" where
  "buttonClicked MidiLearnButton ed =
     (let ed1 = ed\<lparr>isMidiLearning := \<not> isMidiLearning ed\<rparr>
      in if isMidiLearning ed1
         then (let ed2 = ed1\<lparr>learningButtonIndex := - 1\<rparr>
               in if isSampleLearning ed2 then ed2\<lparr>isSampleLearning := False\<rparr> else ed2)
         else ed1\<lparr>learningButtonIndex := - 1\<rparr>)"
| "buttonClicked SampleLearnButton ed =
     (let ed1 = ed\<lparr>isSampleLearning := \<not> isSampleLearning ed\<rparr>
      in if isSampleLearning ed1
         then (let ed2 = ed1\<lparr>sampleLearnButtonIndex := - 1\<rparr>
               in if isMidiLearning ed2
                  then ed2\<lparr>isMidiLearning := False, learningButtonIndex := - 1\<rparr> else ed2)
         else ed1\<lparr>sampleLearnButtonIndex := - 1\<rparr>)"
| "buttonClicked (OneShotButton toggleState) ed =
     ed\<lparr>isOneShotMode := toggleState,
        sampler := (sampler ed)\<lparr>oneShotEnabled := toggleState\<rparr>\<rparr>"

definition startNoteOffTimer :: "int \<Rightarrow> int \<Rightarrow> SamplerEditor \<Rightarrow> SamplerEditor" where
  "startNoteOffTimer buttonIdx midiNote ed =
     ed\<lparr>pendingNoteOffButton := buttonIdx, pendingNoteOffNote := midiNote\<rparr>"

definition addMessageToQueue :: "MidiMessage \<Rightarrow> SamplerEditor \<Rightarrow> SamplerEditor" where
  "addMessageToQueue message ed =
     ed\<lparr>sampler := (sampler ed)\<lparr>midiCollector := midiCollector (sampler ed) @ [message]\<rparr>\<rparr>"

text \<open>
  \<^verbatim>\<open>SamplerEditor::loadSampleForButton\<close> together with the callback of its file
  chooser: \<open>chosen\<close> is the file the chooser returns (a path that does not exist when
  the user cancels). The target note is the note the pad is mapped to.
\<close>

definition loadSampleForButton ::
  "fileSystem \<Rightarrow> int \<Rightarrow> string \<Rightarrow> SamplerEditor \<Rightarrow> SamplerEditor" where
  "loadSampleForButton fs buttonIdx chosen ed =
     (if \<not> (0 \<le> buttonIdx \<and> buttonIdx < 16) then ed
      else let ed1 =
             (if File_exists fs chosen
              then (let midiNote = getNoteMapping (sampler ed) buttonIdx
                    in case loadSampleForMidiNote fs midiNote chosen (sampler ed) of
                         (True, st) \<Rightarrow>
                           startNoteOffTimer buttonIdx midiNote
                             (addMessageToQueue (NoteOn midiNote 100) (ed\<lparr>sampler := st\<rparr>))
                       | (False, st) \<Rightarrow> ed\<lparr>sampler := st\<rparr>)
              else ed)
           in ed1\<lparr>isSampleLearning := False, sampleLearnButtonIndex := - 1\<rparr>)"

text \<open>
  \<^verbatim>\<open>SamplerButtonUI::mouseDown\<close> on pad \<open>buttonIdx\<close>; \<open>chosen\<close> is the file the
  chooser returns if the click opens one.
\<close>

definition mouseDown ::
  "fileSystem \<Rightarrow> bool \<Rightarrow> int \<Rightarrow> string \<Rightarrow> SamplerEditor \<Rightarrow> SamplerEditor" where
  "mouseDown fs rightButton buttonIdx chosen ed =
     (if rightButton then ed\<lparr>sampler := clearSample buttonIdx (sampler ed)\<rparr>
      else if isMidiLearning ed then ed\<lparr>learningButtonIndex := buttonIdx\<rparr>
      else if isSampleLearning ed then loadSampleForButton fs buttonIdx chosen ed
      else let mappedNote = getNoteMapping (sampler ed) buttonIdx
           in startNoteOffTimer buttonIdx mappedNote
                (addMessageToQueue (NoteOn mappedNote 100) ed))"

text \<open>
  The branch of \<^verbatim>\<open>SamplerEditor::timerCallback\<close> that runs once the note-off delay of a
  clicked pad has passed.
\<close>

definition noteOffTimerElapsed :: "SamplerEditor \<Rightarrow> SamplerEditor" where
  "noteOffTimerElapsed ed =
     (if pendingNoteOffButton ed \<ge> 0 \<and> pendingNoteOffNote ed \<ge> 0
      then (addMessageToQueue (NoteOff (pendingNoteOffNote ed)) ed)
             \<lparr>pendingNoteOffButton := - 1, pendingNoteOffNote := - 1\<rparr>
      else ed)"

subsection \<open>The settings document\<close>

text \<open>
  The JSON document: its arrays hold the entries that are objects (the import skips any
  other element); a property missing from an entry reads as 0 or as the empty string, as
  the conversion of a void \<^verbatim>\<open>var\<close> does. A section is \<^term>\<open>None\<close> when the
  property is absent.
\<close>

record ButtonEntry =
  be_index :: int
  be_midiNote :: int
  be_filePath :: string

record NoteEntry =
  ne_midiNote :: int
  ne_filePath :: string

record SettingsDoc =
  doc_version :: string
  doc_oneShotMode :: "bool option"
  doc_buttons :: "ButtonEntry list option"
  doc_midiNotes :: "NoteEntry list option"

text \<open>The document \<^verbatim>\<open>SamplerEditor::exportAllSettings\<close> writes.\<close>

definition exportButtonEntry :: "SamplerEditor \<Rightarrow> nat \<Rightarrow> ButtonEntry" where
  "exportButtonEntry ed i =
     (let mappedNote = getNoteMapping (sampler ed) (int i)
      in \<lparr>be_index = int i, be_midiNote = getNoteMapping (sampler ed) (int i),
          be_filePath = (if hasSampleForMidiNote (sampler ed) mappedNote
                         then filePath (midiNoteSamples (sampler ed) ! nat mappedNote)
                         else [])\<rparr>)"

definition exportNoteEntry :: "SamplerEditor \<Rightarrow> nat \<Rightarrow> NoteEntry" where
  "exportNoteEntry ed i =
     \<lparr>ne_midiNote = int i,
      ne_filePath = (if isLoaded (midiNoteSamples (sampler ed) ! i)
                     then filePath (midiNoteSamples (sampler ed) ! i) else [])\<rparr>"

definition exportAllSettings :: "SamplerEditor \<Rightarrow> SettingsDoc" where
  "exportAllSettings ed =
     \<lparr>doc_version = ''1.0'',
      doc_oneShotMode = Some (isOneShotMode ed),
      doc_buttons = Some (map (exportButtonEntry ed) [0..<16]),
      doc_midiNotes = Some (map (exportNoteEntry ed) [0..<128])\<rparr>"

text \<open>
  \<^verbatim>\<open>SamplerEditor::loadAllSamplesFromJson\<close>. The loops over the two arrays carry the
  editor and the counters \<open>loadedCount\<close> and \<open>failedCount\<close>; the result is the
  returned \<^verbatim>\<open>bool\<close>, the two counters as they are reported, and the editor.
\<close>

fun importButtons :: "ButtonEntry list \<Rightarrow> SamplerEditor \<Rightarrow> SamplerEditor" where
  "importButtons [] ed = ed"
| "importButtons (btnObj # rest) ed =
     importButtons rest
       (if be_index btnObj \<ge> 0 \<and> be_index btnObj < 16
        then ed\<lparr>sampler := setNoteMapping (be_index btnObj) (be_midiNote btnObj) (sampler ed)\<rparr>
        else ed)"

fun importNotes ::
  "fileSystem \<Rightarrow> NoteEntry list \<Rightarrow> int \<times> int \<times> SamplerEditor \<Rightarrow> int \<times> int \<times> SamplerEditor" where
  "importNotes fs [] acc = acc"
| "importNotes fs (nObj # rest) (loadedCount, failedCount, ed) =
     importNotes fs rest
       (if ne_midiNote nObj \<ge> 0 \<and> ne_midiNote nObj < 128 \<and> ne_filePath nObj \<noteq> []
        then (if File_exists fs (ne_filePath nObj)
              then (case loadSampleForMidiNote fs (ne_midiNote nObj) (ne_filePath nObj) (sampler ed) of
                      (True, st) \<Rightarrow> (loadedCount + 1, failedCount, ed\<lparr>sampler := st\<rparr>)
                    | (False, st) \<Rightarrow> (loadedCount, failedCount + 1, ed\<lparr>sampler := st\<rparr>))
              else (loadedCount, failedCount + 1, ed))
        else (loadedCount, failedCount, ed))"

definition loadAllSamplesFromJson ::
  "fileSystem \<Rightarrow> SettingsDoc option \<Rightarrow> SamplerEditor \<Rightarrow> bool \<times> int \<times> int \<times> SamplerEditor" where
  "loadAllSamplesFromJson fs json ed =
     (case json of
        None \<Rightarrow> (False, 0, 0, ed)
      | Some jsonObj \<Rightarrow>
          (let ed1 = (case doc_oneShotMode jsonObj of
                        Some b \<Rightarrow> ed\<lparr>isOneShotMode := b,
                                      sampler := (sampler ed)\<lparr>oneShotEnabled := b\<rparr>\<rparr>
                      | None \<Rightarrow> ed);
               ed2 = (case doc_buttons jsonObj of
                        Some buttonsArray \<Rightarrow> importButtons buttonsArray ed1
                      | None \<Rightarrow> ed1)
           in case doc_midiNotes jsonObj of
                Some midiNotesArray \<Rightarrow>
                  (case importNotes fs midiNotesArray (0, 0, ed2) of
                     (loadedCount, failedCount, ed3) \<Rightarrow> (True, loadedCount, failedCount, ed3))
              | None \<Rightarrow> (True, 0, 0, ed2)))"

subsection \<open>The events that drive the program\<close>

text \<open>
  Incoming MIDI, clicks on the three buttons and on the pads (with the file the chooser
  returns), the elapsed note-off timer, an audio block (the host passes no MIDI of its
  own) and an import. A run applies a list of events in order and stops at the first
  fault.
\<close>

datatype event =
  IncomingMidi MidiMessage
  | ButtonClicked EditorButton
  | MouseDown bool int string
  | MouseDoubleClick int string
  | NoteOffTimer
  | AudioBlock "real list list" int
  | ImportSettings "SettingsDoc option"

fun step ::
  "fileSystem \<Rightarrow> (MidiSamplerVoice list \<Rightarrow> nat option) \<Rightarrow> event \<Rightarrow> SamplerEditor
     \<Rightarrow> fault + SamplerEditor" where
  "step fs steal (IncomingMidi message) ed = Inr (handleIncomingMidiMessage message ed)"
| "step fs steal (ButtonClicked b) ed = Inr (buttonClicked b ed)"
| "step fs steal (MouseDown rightButton buttonIdx chosen) ed =
     Inr (mouseDown fs rightButton buttonIdx chosen ed)"
| "step fs steal (MouseDoubleClick buttonIdx chosen) ed =
     Inr (loadSampleForButton fs buttonIdx chosen ed)"
| "step fs steal NoteOffTimer ed = Inr (noteOffTimerElapsed ed)"
| "step fs steal (AudioBlock buffer n) ed =
     (case processBlock steal buffer n [] (sampler ed) of
        Inl e \<Rightarrow> Inl e
      | Inr (st, out) \<Rightarrow> Inr (ed\<lparr>sampler := st\<rparr>))"
| "step fs steal (ImportSettings json) ed =
     (case loadAllSamplesFromJson fs json ed of
        (ok, loadedCount, failedCount, ed') \<Rightarrow> Inr ed')"

fun run ::
  "fileSystem \<Rightarrow> (MidiSamplerVoice list \<Rightarrow> nat option) \<Rightarrow> event list \<Rightarrow> SamplerEditor
     \<Rightarrow> fault + SamplerEditor" where
  "run fs steal [] ed = Inr ed"
| "run fs steal (e # es) ed =
     (case step fs steal e ed of Inl f \<Rightarrow> Inl f | Inr ed' \<Rightarrow> run fs steal es ed')"

section \<open>Predicates used in the statements\<close>

text \<open>No voice of the list is pitch-shifted.\<close>

definition unshifted :: "MidiSamplerVoice list \<Rightarrow> bool" where
  "unshifted vs = (\<forall>v\<in>set vs. pitchRatio v = 1)"

text \<open>
  An entry of the note array of a settings document loads when its note is in range,
  its path is not empty and names a file that exists and decodes; it fails when note and
  path are so and the file is missing or does not decode. Any other entry is passed
  over.
\<close>

definition entry_loads :: "fileSystem \<Rightarrow> NoteEntry \<Rightarrow> bool" where
  "entry_loads fs e =
     (0 \<le> ne_midiNote e \<and> ne_midiNote e < 128 \<and> ne_filePath e \<noteq> [] \<and>
      File_exists fs (ne_filePath e) \<and> createReaderFor fs (ne_filePath e) \<noteq> None)"

definition entry_fails :: "fileSystem \<Rightarrow> NoteEntry \<Rightarrow> bool" where
  "entry_fails fs e =
     (0 \<le> ne_midiNote e \<and> ne_midiNote e < 128 \<and> ne_filePath e \<noteq> [] \<and>
      (\<not> File_exists fs (ne_filePath e) \<or> createReaderFor fs (ne_filePath e) = None))"

text \<open>
  One iteration of the note loop of the import, as a function of the editor alone, and
  the editor as that loop finds it (after the one-shot flag and the button array); the
  lemmas \<open>importNotes_Cons\<close> and \<open>loadAllSamplesFromJson_notes\<close> relate both to the
  loops above.
\<close>

definition importNote :: "fileSystem \<Rightarrow> NoteEntry \<Rightarrow> SamplerEditor \<Rightarrow> SamplerEditor" where
  "importNote fs e ed =
     (if entry_loads fs e \<or> (entry_fails fs e \<and> File_exists fs (ne_filePath e))
      then ed\<lparr>sampler := snd (loadSampleForMidiNote fs (ne_midiNote e) (ne_filePath e) (sampler ed))\<rparr>
      else ed)"

definition beforeNotes :: "SettingsDoc \<Rightarrow> SamplerEditor \<Rightarrow> SamplerEditor" where
  "beforeNotes d ed =
     (let ed1 = (case doc_oneShotMode d of
                   Some b \<Rightarrow> ed\<lparr>isOneShotMode := b, sampler := (sampler ed)\<lparr>oneShotEnabled := b\<rparr>\<rparr>
                 | None \<Rightarrow> ed)
      in case doc_buttons d of Some buttonsArray \<Rightarrow> importButtons buttonsArray ed1 | None \<Rightarrow> ed1)"

text \<open>
  Every loaded note of the plugin names a file that the file system decodes, and the
  arrays have their 128 and 16 entries.
\<close>

definition files_available :: "fileSystem \<Rightarrow> SamplerPlugin \<Rightarrow> bool" where
  "files_available fs st =
     (length (midiNoteSamples st) = 128 \<and> length (noteMapping st) = 16 \<and>
      (\<forall>n<128. isLoaded (midiNoteSamples st ! n) \<longrightarrow>
         createReaderFor fs (filePath (midiNoteSamples st ! n)) \<noteq> None))"

text \<open>The first plugin has the bindings and the loaded notes of the second.\<close>

definition same_setup :: "SamplerPlugin \<Rightarrow> SamplerPlugin \<Rightarrow> bool" where
  "same_setup st' st =
     (noteMapping st' = noteMapping st \<and>
      (\<forall>n<128. isLoaded (midiNoteSamples st' ! n) = isLoaded (midiNoteSamples st ! n)))"

text \<open>
  What the target of an import must satisfy for the loaded notes to come out as in the
  exporting state: a note that the export does not reload (not loaded, or loaded with
  an empty path) is loaded in the target exactly if it is in the exporting state.
\<close>

definition import_target :: "SamplerPlugin \<Rightarrow> SamplerPlugin \<Rightarrow> bool" where
  "import_target t st =
     (length (midiNoteSamples t) = 128 \<and> length (noteMapping t) = 16 \<and>
      (\<forall>n<128. \<not> (isLoaded (midiNoteSamples st ! n) \<and> filePath (midiNoteSamples st ! n) \<noteq> []) \<longrightarrow>
         isLoaded (midiNoteSamples t ! n) = isLoaded (midiNoteSamples st ! n)))"

section \<open>Example states\<close>

text \<open>
  A mono buffer of two frames at address 0, a voice playing it from its start at pitch
  ratio 1, and the store holding the buffer.
\<close>

definition example_buffer :: AudioSampleBuffer where
  "example_buffer = \<lparr>numSamples = 2, channels = [[1 / 2, 1 / 4]]\<rparr>"

definition example_store :: store where
  "example_store = (\<lambda>a. if a = 0 then Some example_buffer else None)"

definition example_voice :: MidiSamplerVoice where
  "example_voice =
     \<lparr>isPlaying = True, velocity = 1, position = 0, pitchRatio = 1, midiNoteNumber = 60,
      v_rootNote = 60, v_sampleBuffer = Some 0, v_sourceSampleRate = 44100,
      currentlyPlayingNote = 60\<rparr>"

text \<open>
  A file system with one decodable file (the two-frame mono sample above, at 44100 Hz)
  and one file that exists and that no format reads; and the program as it starts.
\<close>

definition example_reader :: AudioFormatReader where
  "example_reader = \<lparr>lengthInSamples = 2, sampleRate = 44100, frames = [[1 / 2, 1 / 4]]\<rparr>"

definition example_fs :: fileSystem where
  "example_fs =
     (\<lambda>path. if path = ''a.wav'' then Some (Some example_reader)
             else if path = ''bad.wav'' then Some None else None)"

definition no_steal :: "MidiSamplerVoice list \<Rightarrow> nat option" where
  "no_steal vs = None"

definition example_editor :: SamplerEditor where
  "example_editor = SamplerEditor_init SamplerPlugin_init"

text \<open>
  A settings document that names the decodable file for note 72, and the editor after
  MIDI Learn has been armed and pad 5 selected.
\<close>

definition doc72 :: SettingsDoc where
  "doc72 = \<lparr>doc_version = ''1.0'', doc_oneShotMode = None, doc_buttons = None,
            doc_midiNotes = Some [\<lparr>ne_midiNote = 72, ne_filePath = ''a.wav''\<rparr>]\<rparr>"

definition example_learning :: SamplerEditor where
  "example_learning = example_editor\<lparr>isMidiLearning := True, learningButtonIndex := 5\<rparr>"

definition example_sample_learning :: SamplerEditor where
  "example_sample_learning = example_editor\<lparr>isSampleLearning := True\<rparr>"

text \<open>The plugin after the decodable file has been loaded for note 60.\<close>

definition loaded60 :: SamplerPlugin where
  "loaded60 = snd (loadSampleForMidiNote example_fs 60 ''a.wav'' SamplerPlugin_init)"


text \<open>
  The editor with the decodable file loaded for note 72, MIDI Learn armed and pad 5
  selected, and the sound the synthesiser then holds for note 72.
\<close>

definition sound72 :: ButtonSampleSound where
  "sound72 = \<lparr>buttonIndex = - 1, snd_sampleBuffer = Some 0, snd_sourceSampleRate = 44100,
               snd_rootNote = 72\<rparr>"

definition example_learning72 :: SamplerEditor where
  "example_learning72 =
     example_learning\<lparr>sampler :=
       snd (loadSampleForMidiNote example_fs 72 ''a.wav'' (sampler example_learning))\<rparr>"

text \<open>
  A file system whose one file decodes to a mono sample without frames.
\<close>

definition empty_reader :: AudioFormatReader where
  "empty_reader = \<lparr>lengthInSamples = 0, sampleRate = 44100, frames = [[]]\<rparr>"

definition empty_fs :: fileSystem where
  "empty_fs = (\<lambda>path. if path = ''e.wav'' then Some (Some empty_reader) else None)"



section \<open>Properties of the voice\<close>

lemma addToOutput_frame:
  "addToOutput out idx x = Inr out' \<Longrightarrow>
     length out' = length out \<and>
     (\<forall>c<length out. length (out' ! c) = length (out ! c) \<and>
        (\<forall>i. i \<noteq> nat idx \<longrightarrow> out' ! c ! i = out ! c ! i))"
proof (induction out arbitrary: out')
  case Nil
  then show ?case by simp
next
  case (Cons ch rest)
  from Cons.prems obtain rest' where
    r: "addToOutput rest idx x = Inr rest'" and
    o: "out' = ch[nat idx := ch ! nat idx + x] # rest'"
    by (auto split: if_splits sum.splits)
  from Cons.IH[OF r] have ih: "length rest' = length rest"
    "\<And>c. c < length rest \<Longrightarrow> length (rest' ! c) = length (rest ! c) \<and>
        (\<forall>i. i \<noteq> nat idx \<longrightarrow> rest' ! c ! i = rest ! c ! i)" by auto
  show ?case
  proof (intro conjI allI impI)
    show "length out' = length (ch # rest)" using o ih(1) by simp
  next
    fix c assume "c < length (ch # rest)"
    then show "length (out' ! c) = length ((ch # rest) ! c)"
      using o ih(2) by (cases c) auto
  next
    fix c i assume "c < length (ch # rest)" "i \<noteq> nat idx"
    then show "out' ! c ! i = (ch # rest) ! c ! i"
      using o ih(2) by (cases c) auto
  qed
qed

lemma addToOutput_defined:
  "0 \<le> idx \<Longrightarrow> \<forall>ch\<in>set out. nat idx < length ch \<Longrightarrow> \<exists>out'. addToOutput out idx x = Inr out'"
  by (induction out) auto

lemma sumChannels_defined:
  "0 < n \<Longrightarrow> 0 \<le> pos \<Longrightarrow> \<forall>ch\<in>set chs. length ch = nat n \<Longrightarrow> \<exists>s. sumChannels chs n pos acc = Inr s"
proof (induction chs arbitrary: acc)
  case Nil then show ?case by simp
next
  case (Cons ch chs)
  have "0 \<le> truncToInt pos" using Cons.prems(2) by (simp add: truncToInt_def)
  then have m: "truncToInt pos smod n = truncToInt pos mod n"
    using Cons.prems(1) by (simp add: smod_int_alt_def sgn_if)
  have "0 \<le> truncToInt pos mod n" "truncToInt pos mod n < n" using Cons.prems(1) by auto
  then show ?case using Cons m by (auto simp: Let_def)
qed

lemma renderFrames_stop:
  assumes "renderFrames k b idx v out = Inr (v', out')" and "isPlaying v" and "0 \<le> idx"
  shows "length out' = length out \<and> pitchRatio v' = pitchRatio v \<and>
     (if \<exists>j<k. real_of_int (numSamples b) \<le> position v + real (Suc j) * pitchRatio v
      then \<not> isPlaying v' \<and> currentlyPlayingNote v' = - 1 \<and>
           (\<exists>j<k. position v' = position v + real (Suc j) * pitchRatio v \<and>
                  real_of_int (numSamples b) \<le> position v' \<and>
                  (\<forall>j'<j. position v + real (Suc j') * pitchRatio v < real_of_int (numSamples b)) \<and>
                  (\<forall>c<length out. \<forall>i\<ge>nat idx + j. out' ! c ! i = out ! c ! i))
      else isPlaying v' \<and> position v' = position v + real k * pitchRatio v)"
  using assms
proof (induction k arbitrary: idx v out)
  case 0
  then show ?case by simp
next
  case (Suc k)
  let ?p1 = "position v + pitchRatio v"
  let ?v1 = "v\<lparr>position := ?p1\<rparr>"
  from Suc.prems(1) obtain s where s: "sumChannels (channels b) (numSamples b) (position v) 0 = Inr s"
    by (auto split: sum.splits)
  show ?case
  proof (cases "real_of_int (numSamples b) \<le> ?p1")
    case True
    with Suc.prems(1) s have r: "v' = clearCurrentNote (?v1\<lparr>isPlaying := False\<rparr>)" "out' = out"
      by (auto simp: Let_def)
    have ex: "\<exists>j<Suc k. real_of_int (numSamples b) \<le> position v + real (Suc j) * pitchRatio v"
      using True by (intro exI[of _ 0]) simp
    have "\<exists>j<Suc k. position v' = position v + real (Suc j) * pitchRatio v \<and>
                  real_of_int (numSamples b) \<le> position v' \<and>
                  (\<forall>j'<j. position v + real (Suc j') * pitchRatio v < real_of_int (numSamples b)) \<and>
                  (\<forall>c<length out. \<forall>i\<ge>nat idx + j. out' ! c ! i = out ! c ! i)"
      using True r by (intro exI[of _ 0]) (simp add: clearCurrentNote_def)
    then show ?thesis using ex r by (simp add: clearCurrentNote_def)
  next
    case False
    with Suc.prems(1) s obtain out1 where
      o1: "addToOutput out idx (s / real_of_int (getNumChannels b) * velocity v) = Inr out1" and
      rec: "renderFrames k b (idx + 1) ?v1 out1 = Inr (v', out')"
      by (auto simp: Let_def split: sum.splits)
    note fr = addToOutput_frame[OF o1]
    have ih: "length out' = length out1 \<and> pitchRatio v' = pitchRatio v \<and>
     (if \<exists>j<k. real_of_int (numSamples b) \<le> ?p1 + real (Suc j) * pitchRatio v
      then \<not> isPlaying v' \<and> currentlyPlayingNote v' = - 1 \<and>
           (\<exists>j<k. position v' = ?p1 + real (Suc j) * pitchRatio v \<and>
                  real_of_int (numSamples b) \<le> position v' \<and>
                  (\<forall>j'<j. ?p1 + real (Suc j') * pitchRatio v < real_of_int (numSamples b)) \<and>
                  (\<forall>c<length out1. \<forall>i\<ge>nat (idx + 1) + j. out' ! c ! i = out1 ! c ! i))
      else isPlaying v' \<and> position v' = ?p1 + real k * pitchRatio v)"
      using Suc.IH[OF rec] Suc.prems(2,3) by (simp del: of_nat_Suc cong: if_cong)
    have shift: "\<And>j. ?p1 + real (Suc j) * pitchRatio v = position v + real (Suc (Suc j)) * pitchRatio v"
      by (simp add: algebra_simps)
    have exeq: "(\<exists>j<Suc k. real_of_int (numSamples b) \<le> position v + real (Suc j) * pitchRatio v)
        = (\<exists>j<k. real_of_int (numSamples b) \<le> ?p1 + real (Suc j) * pitchRatio v)" (is "?L = ?R")
    proof
      assume ?L
      then obtain j where j: "j < Suc k" "real_of_int (numSamples b) \<le> position v + real (Suc j) * pitchRatio v" by blast
      with False obtain j0 where "j = Suc j0" by (cases j) auto
      with j show ?R by (intro exI[of _ j0]) (simp add: algebra_simps)
    next
      assume ?R
      then obtain j where "j < k" "real_of_int (numSamples b) \<le> ?p1 + real (Suc j) * pitchRatio v" by blast
      then show ?L by (intro exI[of _ "Suc j"]) (simp add: algebra_simps)
    qed
    show ?thesis
    proof (cases ?R)
      case True
      with ih obtain j where j: "j < k" "position v' = ?p1 + real (Suc j) * pitchRatio v"
          "real_of_int (numSamples b) \<le> position v'"
          "\<forall>j'<j. ?p1 + real (Suc j') * pitchRatio v < real_of_int (numSamples b)"
          "\<forall>c<length out1. \<forall>i\<ge>nat (idx + 1) + j. out' ! c ! i = out1 ! c ! i"
        and np: "\<not> isPlaying v'" "currentlyPlayingNote v' = - 1"
        by auto
      have a: "\<forall>j'<Suc j. position v + real (Suc j') * pitchRatio v < real_of_int (numSamples b)"
      proof (intro allI impI)
        fix j' assume "j' < Suc j"
        show "position v + real (Suc j') * pitchRatio v < real_of_int (numSamples b)"
        proof (cases j')
          case 0 then show ?thesis using False by simp
        next
          case (Suc j0)
          with \<open>j' < Suc j\<close> have "j0 < j" by simp
          with j(4) have "?p1 + real (Suc j0) * pitchRatio v < real_of_int (numSamples b)" by blast
          then show ?thesis using Suc by (simp add: algebra_simps)
        qed
      qed
      have bb: "\<forall>c<length out. \<forall>i\<ge>nat idx + Suc j. out' ! c ! i = out ! c ! i"
      proof (intro allI impI)
        fix c i assume c: "c < length out" and i: "nat idx + Suc j \<le> i"
        have "nat (idx + 1) = nat idx + 1" using Suc.prems(3) by simp
        with i have "nat (idx + 1) + j \<le> i" "i \<noteq> nat idx" by auto
        with j(5) c fr show "out' ! c ! i = out ! c ! i" by simp
      qed
      have "\<exists>j<Suc k. position v' = position v + real (Suc j) * pitchRatio v \<and>
                  real_of_int (numSamples b) \<le> position v' \<and>
                  (\<forall>j'<j. position v + real (Suc j') * pitchRatio v < real_of_int (numSamples b)) \<and>
                  (\<forall>c<length out. \<forall>i\<ge>nat idx + j. out' ! c ! i = out ! c ! i)"
        using j(1,2,3) a bb by (intro exI[of _ "Suc j"]) (simp add: algebra_simps)
      moreover have "length out' = length out" "pitchRatio v' = pitchRatio v" using ih fr by simp_all
      moreover have "\<exists>j<Suc k. real_of_int (numSamples b) \<le> position v + real (Suc j) * pitchRatio v"
        using exeq True by blast
      ultimately show ?thesis using np by (simp only: if_True simp_thms)
    next
      case False
      then have nl: "\<not> (\<exists>j<Suc k. real_of_int (numSamples b) \<le> position v + real (Suc j) * pitchRatio v)"
        using exeq by blast
      from False ih have "isPlaying v'" "position v' = ?p1 + real k * pitchRatio v" by simp_all
      then have "isPlaying v'" "position v' = position v + real (Suc k) * pitchRatio v"
        by (simp_all add: algebra_simps)
      moreover have "length out' = length out" "pitchRatio v' = pitchRatio v" using ih fr by simp_all
      ultimately show ?thesis using nl by (simp only: if_False simp_thms)
    qed
  qed
qed

lemma renderFrames_defined:
  assumes "0 < numSamples b" and "\<forall>ch\<in>set (channels b). length ch = nat (numSamples b)"
    and "0 \<le> position v" and "0 \<le> pitchRatio v" and "0 \<le> idx"
    and "\<forall>ch\<in>set out. nat idx + k \<le> length ch"
  shows "\<exists>r. renderFrames k b idx v out = Inr r"
  using assms(3,4,5,6)
proof (induction k arbitrary: idx v out)
  case 0
  then show ?case by simp
next
  case (Suc k)
  obtain s where s: "sumChannels (channels b) (numSamples b) (position v) 0 = Inr s"
    using sumChannels_defined[OF assms(1) Suc.prems(1) assms(2)] by blast
  show ?case
  proof (cases "real_of_int (numSamples b) \<le> position v + pitchRatio v")
    case True
    then show ?thesis using s by (simp add: Let_def)
  next
    case False
    have "\<forall>ch\<in>set out. nat idx < length ch" using Suc.prems(4) by auto
    then obtain out1 where
      o1: "addToOutput out idx (s / real_of_int (getNumChannels b) * velocity v) = Inr out1"
      using addToOutput_defined[OF Suc.prems(3)] by blast
    note fr = addToOutput_frame[OF o1]
    have len: "\<forall>ch\<in>set out1. nat (idx + 1) + k \<le> length ch"
    proof
      fix ch assume "ch \<in> set out1"
      then obtain c where c: "c < length out1" "ch = out1 ! c" by (auto simp: in_set_conv_nth)
      with fr have "length ch = length (out ! c)" "c < length out" by auto
      moreover have "nat idx + Suc k \<le> length (out ! c)" using Suc.prems(4) \<open>c < length out\<close> by auto
      ultimately show "nat (idx + 1) + k \<le> length ch" using Suc.prems(3) by (simp add: nat_add_distrib)
    qed
    have "\<exists>r. renderFrames k b (idx + 1) (v\<lparr>position := position v + pitchRatio v\<rparr>) out1 = Inr r"
    proof (rule Suc.IH)
      show "0 \<le> position (v\<lparr>position := position v + pitchRatio v\<rparr>)"
        using Suc.prems(1,2) by simp
      show "0 \<le> pitchRatio (v\<lparr>position := position v + pitchRatio v\<rparr>)"
        using Suc.prems(2) by simp
      show "0 \<le> idx + 1" using Suc.prems(3) by simp
      show "\<forall>ch\<in>set out1. nat (idx + 1) + k \<le> length ch" by (rule len)
    qed
    then show ?thesis using s False o1 by (simp add: Let_def)
  qed
qed


lemma example_render:
  "renderNextBlock example_store example_voice [[0, 0, 0, 0]] 0 4 =
     Inr (example_voice\<lparr>isPlaying := False, position := 2, currentlyPlayingNote := - 1\<rparr>,
          [[1 / 2, 0, 0, 0]])"
  by (simp add: renderNextBlock_def example_voice_def example_store_def example_buffer_def
      numeral_nat Let_def truncToInt_def getNumChannels_def clearCurrentNote_def
      smod_int_alt_def sgn_if)

lemma renderFrames_not_playing:
  "renderFrames k b idx v out = Inr (v', out') \<Longrightarrow> isPlaying v \<Longrightarrow> \<not> isPlaying v' \<Longrightarrow>
     real_of_int (numSamples b) \<le> position v'"
proof (induction k arbitrary: idx v out)
  case 0
  then show ?case by simp
next
  case (Suc k)
  from Suc.prems(1) obtain s where
    s: "sumChannels (channels b) (numSamples b) (position v) 0 = Inr s"
    by (auto split: sum.splits)
  show ?case
  proof (cases "real_of_int (numSamples b) \<le> position v + pitchRatio v")
    case True
    with Suc.prems(1) s show ?thesis by (auto simp: Let_def clearCurrentNote_def)
  next
    case False
    with Suc.prems(1) s obtain out1 where
      "renderFrames k b (idx + 1) (v\<lparr>position := position v + pitchRatio v\<rparr>) out1 = Inr (v', out')"
      by (auto simp: Let_def split: sum.splits)
    from Suc.IH[OF this] Suc.prems(2,3) show ?thesis by simp
  qed
qed

text \<open>
  Stopping at the end of a buffer that holds at least one frame: a playing voice with
  such a buffer renders a block without a fault. If the playhead reaches or passes the
  buffer's frame count at some frame of the block, the voice is no longer playing
  afterwards (it has left its note, and has not
  wrapped around: the playhead stays at or beyond the end), and from the frame at which
  it stopped onwards the output is what it was before the call. Otherwise the voice is
  still playing and has advanced by one pitch ratio per frame.
\<close>

theorem renderNextBlock_stops_at_end:
  assumes "isPlaying v" and "v_sampleBuffer v = Some a" and "hp a = Some b"
    and "0 < numSamples b" and "\<forall>ch\<in>set (channels b). length ch = nat (numSamples b)"
    and "0 \<le> position v" and "0 \<le> pitchRatio v"
    and "0 \<le> startSample" and "\<forall>ch\<in>set out. nat startSample + nat n \<le> length ch"
  shows "\<exists>v' out'. renderNextBlock hp v out startSample n = Inr (v', out') \<and>
     (if \<exists>j<nat n. real_of_int (numSamples b) \<le> position v + real (Suc j) * pitchRatio v
      then \<not> isPlaying v' \<and> currentlyPlayingNote v' = - 1 \<and>
           (\<exists>j<nat n. position v' = position v + real (Suc j) * pitchRatio v \<and>
                  real_of_int (numSamples b) \<le> position v' \<and>
                  (\<forall>j'<j. position v + real (Suc j') * pitchRatio v < real_of_int (numSamples b)) \<and>
                  (\<forall>c<length out. \<forall>i\<ge>nat startSample + j. out' ! c ! i = out ! c ! i))
      else isPlaying v' \<and> position v' = position v + real (nat n) * pitchRatio v)"
proof -
  have eq: "renderNextBlock hp v out startSample n = renderFrames (nat n) b startSample v out"
    using assms(1,2,3) by (simp add: renderNextBlock_def)
  obtain v' out' where r: "renderFrames (nat n) b startSample v out = Inr (v', out')"
    using renderFrames_defined[OF assms(4,5,6,7,8,9)] by fastforce
  note st = renderFrames_stop[OF r assms(1,8)]
  show ?thesis unfolding eq r
    by (intro exI[of _ v'] exI[of _ out'] conjI refl conjunct2[OF conjunct2[OF st]])
qed


theorem renderNextBlock_stops_at_end_witness:
  "\<exists>v' out'. renderNextBlock example_store example_voice [[0, 0, 0, 0]] 0 4 = Inr (v', out') \<and>
     \<not> isPlaying v' \<and> currentlyPlayingNote v' = - 1 \<and> position v' = 2 \<and>
     out' ! 0 ! 1 = 0 \<and> out' ! 0 ! 2 = 0 \<and> out' ! 0 ! 3 = 0"
proof -
  have reach: "\<exists>j<nat 4. real_of_int (numSamples example_buffer)
      \<le> position example_voice + real (Suc j) * pitchRatio example_voice"
    by (intro exI[of _ 1]) (simp add: example_buffer_def example_voice_def)
  have "\<exists>v' out'. renderNextBlock example_store example_voice [[0, 0, 0, 0]] 0 4 = Inr (v', out') \<and>
     (if \<exists>j<nat 4. real_of_int (numSamples example_buffer)
           \<le> position example_voice + real (Suc j) * pitchRatio example_voice
      then \<not> isPlaying v' \<and> currentlyPlayingNote v' = - 1 \<and>
           (\<exists>j<nat 4. position v' = position example_voice + real (Suc j) * pitchRatio example_voice \<and>
                  real_of_int (numSamples example_buffer) \<le> position v' \<and>
                  (\<forall>j'<j. position example_voice + real (Suc j') * pitchRatio example_voice
                      < real_of_int (numSamples example_buffer)) \<and>
                  (\<forall>c<length [[0, 0, 0, 0::real]]. \<forall>i\<ge>nat 0 + j.
                      out' ! c ! i = [[0, 0, 0, 0]] ! c ! i))
      else isPlaying v' \<and>
           position v' = position example_voice + real (nat 4) * pitchRatio example_voice)"
    by (rule renderNextBlock_stops_at_end[where a = 0 and b = example_buffer])
       (simp_all add: example_voice_def example_store_def example_buffer_def)
  then obtain v' out' where
    r: "renderNextBlock example_store example_voice [[0, 0, 0, 0]] 0 4 = Inr (v', out')" and
    st: "\<not> isPlaying v'" "currentlyPlayingNote v' = - 1"
    using reach by (auto simp only: if_True)
  from r example_render have
    "v' = example_voice\<lparr>isPlaying := False, position := 2, currentlyPlayingNote := - 1\<rparr>"
    "out' = [[1 / 2, 0, 0, 0]]"
    by simp_all
  with r st show ?thesis by (simp add: numeral_nat)
qed

text \<open>
  C5. With one-shot mode enabled, \<open>stopNote\<close> leaves every voice exactly as it was,
  whatever its arguments, and so a note-off dispatched by the synthesiser leaves all
  voices as they were. Under one-shot mode a playing voice is no longer playing after
  one of the synthesiser's calls only if that call rendered it and its playhead is at or
  beyond the frame count of the buffer it reads.
\<close>

theorem oneShot_noteOff_noop:
  "stopNote True vel allowTailOff v = v \<and>
   synth_noteOff True midiNote vs = vs \<and>
   (isPlaying v \<and> voice_call_run True hp c v = Inr v' \<and> \<not> isPlaying v' \<longrightarrow>
      (\<exists>out startSample n a b. c = CallRenderNextBlock out startSample n \<and>
         v_sampleBuffer v = Some a \<and> hp a = Some b \<and>
         real_of_int (numSamples b) \<le> position v'))"
proof (intro conjI impI)
  show "stopNote True vel allowTailOff v = v" by (simp add: stopNote_def)
next
  show "synth_noteOff True midiNote vs = vs"
    by (simp add: synth_noteOff_def stopNote_def cong: if_cong)
next
  assume a: "isPlaying v \<and> voice_call_run True hp c v = Inr v' \<and> \<not> isPlaying v'"
  show "\<exists>out startSample n a b. c = CallRenderNextBlock out startSample n \<and>
         v_sampleBuffer v = Some a \<and> hp a = Some b \<and>
         real_of_int (numSamples b) \<le> position v'"
  proof (cases c)
    case (CallStartNote nn vel' sound)
    with a show ?thesis by (auto simp: startNote_def Let_def split: option.splits if_splits)
  next
    case (CallStopNote vel' tail)
    with a show ?thesis by (auto simp: stopNote_def)
  next
    case (CallRenderNextBlock out startSample n)
    with a obtain out' where r: "renderNextBlock hp v out startSample n = Inr (v', out')"
      by (auto split: sum.splits)
    from a r obtain ad b where ab: "v_sampleBuffer v = Some ad" "hp ad = Some b"
      and rf: "renderFrames (nat n) b startSample v out = Inr (v', out')"
      by (auto simp: renderNextBlock_def split: if_splits option.splits)
    from renderFrames_not_playing[OF rf] a have "real_of_int (numSamples b) \<le> position v'"
      by simp
    with CallRenderNextBlock ab show ?thesis by simp
  qed
qed

theorem oneShot_noteOff_noop_witness:
  "stopNote True 0 False example_voice = example_voice \<and>
   synth_noteOff True 60 [example_voice] = [example_voice] \<and>
   isPlaying example_voice \<and>
   voice_call_run True example_store (CallRenderNextBlock [[0, 0, 0, 0]] 0 4) example_voice =
     Inr (example_voice\<lparr>isPlaying := False, position := 2, currentlyPlayingNote := - 1\<rparr>) \<and>
   (\<exists>out startSample n a b.
       CallRenderNextBlock [[0, 0, 0, 0]] 0 4 = CallRenderNextBlock out startSample n \<and>
       v_sampleBuffer example_voice = Some a \<and> example_store a = Some b \<and>
       real_of_int (numSamples b) \<le> 2)"
proof -
  have run: "voice_call_run True example_store (CallRenderNextBlock [[0, 0, 0, 0]] 0 4)
      example_voice =
     Inr (example_voice\<lparr>isPlaying := False, position := 2, currentlyPlayingNote := - 1\<rparr>)"
    by (simp add: example_render)
  have pl: "isPlaying example_voice" by (simp add: example_voice_def)
  from oneShot_noteOff_noop[where vel = 0 and allowTailOff = False and v = example_voice
      and midiNote = 60 and vs = "[example_voice]" and hp = example_store
      and c = "CallRenderNextBlock [[0, 0, 0, 0]] 0 4"
      and v' = "example_voice\<lparr>isPlaying := False, position := 2,
                  currentlyPlayingNote := - 1\<rparr>"]
    run pl
  show ?thesis by simp
qed

text \<open>
  C6. A voice started for note \<open>n\<close> with a sound of root note \<open>r\<close> has pitch ratio
  \<open>2 powr ((n - r) / 12)\<close> when the sound's source sample rate is positive, and 1
  otherwise; started at the root note itself it has pitch ratio 1 in either case.
\<close>

theorem startNote_pitchRatio:
  "pitchRatio (startNote n vel (Some s) v) =
     (if snd_sourceSampleRate s > 0
      then 2 powr (real_of_int (n - snd_rootNote s) / 12) else 1) \<and>
   pitchRatio (startNote (snd_rootNote s) vel (Some s) v) = 1"
  by (simp add: startNote_def Let_def)

section \<open>Evaluating the example states\<close>

lemma example_files [simp]:
  "createReaderFor example_fs ''a.wav'' = Some example_reader"
  "createReaderFor example_fs ''bad.wav'' = None"
  "File_exists example_fs ''a.wav''"
  "File_exists example_fs ''bad.wav''"
  by (simp_all add: createReaderFor_def example_fs_def File_exists_def)

lemmas control_defs = example_editor_def SamplerEditor_init_def SamplerPlugin_init_def
  loadAllSamplesFromJson_def doc72_def Let_def File_exists_def example_fs_def createReaderFor_def
  loadSampleForMidiNote_def clearMidiNoteSample_def ButtonSample_clear_def ButtonSample_init_def
  example_reader_def mouseDown_def handleIncomingMidiMessage_def handleMidiMessage_def
  trackNote_def setNoteMapping_def getNoteMapping_def removeSound_def loadSampleForButton_def
  startNoteOffTimer_def addMessageToQueue_def

lemmas audio_defs = processBlock_def appliesToNote_def appliesToChannel_def findFreeVoice_def
  MidiSamplerVoice_init_def startVoice_def startNote_def stopNote_def renderNextBlock_def
  no_steal_def truncToInt_def getNumChannels_def clearCurrentNote_def smod_int_alt_def sgn_if
  numeral_nat

lemma run_snoc:
  "run fs steal (es @ [e]) ed =
     (case run fs steal es ed of Inl f \<Rightarrow> Inl f | Inr ed' \<Rightarrow> step fs steal e ed')"
  by (induction es arbitrary: ed) (auto split: sum.splits)

lemma example_learning_reached:
  "run example_fs no_steal [ButtonClicked MidiLearnButton, MouseDown False 5 []] example_editor =
     Inr example_learning"
  by (simp add: example_learning_def control_defs)

lemma example_sample_learning_reached:
  "run example_fs no_steal [ButtonClicked SampleLearnButton] example_editor =
     Inr example_sample_learning"
  by (simp add: example_sample_learning_def control_defs)

lemma loaded60_eq:
  "loaded60 = SamplerPlugin_init\<lparr>
     midiNoteSamples := (replicate 128 ButtonSample_init)
        [60 := \<lparr>sampleBuffer = Some 0, filePath = ''a.wav'', sourceSampleRate = 44100,
                 isLoaded = True, rootNote = 60\<rparr>],
     freeStore := (\<lambda>a. None)(0 := Some example_buffer), nextAddr := Suc 0,
     sounds := [\<lparr>buttonIndex = - 1, snd_sampleBuffer = Some 0, snd_sourceSampleRate = 44100,
                 snd_rootNote = 60\<rparr>]\<rparr>"
  by (simp add: loaded60_def loadSampleForMidiNote_def clearMidiNoteSample_def Let_def
      SamplerPlugin_init_def ButtonSample_clear_def ButtonSample_init_def example_reader_def
      example_buffer_def)

lemma learn_run_before_block:
  "case run example_fs no_steal
     [ImportSettings (Some doc72), ButtonClicked MidiLearnButton, MouseDown False 5 [],
      IncomingMidi (NoteOn 72 100)] example_editor of
     Inr ed \<Rightarrow> getNoteMapping (sampler ed) 5 = 72 \<and>
               midiCollector (sampler ed) = [NoteOn 72 100] \<and>
               \<not> isPlaying (voices (sampler ed) ! 0)
   | Inl e \<Rightarrow> False"
  by (simp add: control_defs MidiSamplerVoice_init_def)

lemma learn_run_after_block:
  "case run example_fs no_steal
     ([ImportSettings (Some doc72), ButtonClicked MidiLearnButton, MouseDown False 5 [],
      IncomingMidi (NoteOn 72 100)] @ [AudioBlock [[0]] 1]) example_editor of
     Inr ed \<Rightarrow> isPlaying (voices (sampler ed) ! 0) \<and>
               midiNoteNumber (voices (sampler ed) ! 0) = 72 \<and>
               pitchRatio (voices (sampler ed) ! 0) = 1
   | Inl e \<Rightarrow> False"
  by (simp add: control_defs audio_defs)

lemma sample_learn_run:
  "case run example_fs no_steal
     [ButtonClicked SampleLearnButton, IncomingMidi (NoteOn 72 100)] example_editor of
     Inr ed \<Rightarrow> isSampleLearning ed \<and> midiCollector (sampler ed) = [NoteOn 72 100] \<and>
               (case step example_fs no_steal (MouseDown False 0 ''a.wav'') ed of
                  Inr ed' \<Rightarrow> \<not> isLoaded (midiNoteSamples (sampler ed') ! 72) \<and>
                             isLoaded (midiNoteSamples (sampler ed') ! 36) \<and>
                             filePath (midiNoteSamples (sampler ed') ! 36) = ''a.wav'' \<and>
                             \<not> isSampleLearning ed'
                | Inl e \<Rightarrow> False)
   | Inl e \<Rightarrow> False"
  by (simp add: control_defs)

lemma reload_run_before_block:
  "case run example_fs no_steal
     [MouseDoubleClick 0 ''a.wav'', AudioBlock [[0]] 1, MouseDoubleClick 0 ''a.wav'']
     example_editor of
     Inr ed \<Rightarrow> isPlaying (voices (sampler ed) ! 0) \<and>
               v_sampleBuffer (voices (sampler ed) ! 0) = Some 0 \<and>
               freeStore (sampler ed) 0 = None \<and>
               step example_fs no_steal (AudioBlock [[0]] 1) ed = Inl UseAfterFree
   | Inl e \<Rightarrow> False"
  by (simp add: control_defs audio_defs)

section \<open>The pitch ratio of started voices\<close>

lemma startNote_applies_ratio:
  "appliesToNote s n \<Longrightarrow> pitchRatio (startNote n vel (Some s) v) = 1"
  by (simp add: startNote_def appliesToNote_def Let_def)

lemma stopNote_pitchRatio [simp]: "pitchRatio (stopNote os vel t v) = pitchRatio v"
  by (simp add: stopNote_def clearCurrentNote_def Let_def)

lemma startVoice_applies_ratio:
  "appliesToNote s n \<Longrightarrow> pitchRatio (startVoice os s n vel v) = 1"
  by (simp add: startVoice_def startNote_applies_ratio)

lemma unshifted_update:
  "unshifted vs \<Longrightarrow> pitchRatio v = 1 \<Longrightarrow> unshifted (vs[i := v])"
  unfolding unshifted_def using set_update_subset_insert[of vs i v] by auto
  
lemma synth_noteOn_unshifted:
  "unshifted vs \<Longrightarrow> unshifted (synth_noteOn steal os n vel ss vs)"
proof (induction ss arbitrary: vs)
  case Nil
  then show ?case by simp
next
  case (Cons s ss)
  let ?vs1 = "map (\<lambda>v. if currentlyPlayingNote v = n then stopNote os 1 True v else v) vs"
  have u1: "unshifted ?vs1" using Cons.prems by (auto simp: unshifted_def)
  show ?case
  proof (cases "appliesToNote s n \<and> appliesToChannel s 1")
    case True
    then have ap: "appliesToNote s n" by simp
    have "unshifted (case findFreeVoice steal ?vs1 of None \<Rightarrow> ?vs1
            | Some i \<Rightarrow> if i < length ?vs1 then ?vs1[i := startVoice os s n vel (?vs1 ! i)] else ?vs1)"
      using u1 startVoice_applies_ratio[OF ap]
      by (cases "findFreeVoice steal ?vs1") (simp_all add: unshifted_update)
    from Cons.IH[OF this] True show ?thesis by (simp add: Let_def)
  next
    case False
    with Cons.IH[OF Cons.prems] show ?thesis by auto
  qed
qed

lemma synth_noteOff_unshifted:
  "unshifted vs \<Longrightarrow> unshifted (synth_noteOff os n vs)"
  by (auto simp: unshifted_def synth_noteOff_def)

lemma handleMidiEvent_unshifted:
  "unshifted (voices st) \<Longrightarrow> unshifted (voices (handleMidiEvent steal m st))"
  by (cases m) (simp_all add: synth_noteOn_unshifted synth_noteOff_unshifted)

lemma fold_handleMidiEvent_unshifted:
  "unshifted (voices st) \<Longrightarrow> unshifted (voices (fold (handleMidiEvent steal) ms st))"
  by (induction ms arbitrary: st) (simp_all add: handleMidiEvent_unshifted)

lemma renderFrames_pitchRatio:
  "renderFrames k b idx v out = Inr (v', out') \<Longrightarrow> pitchRatio v' = pitchRatio v"
proof (induction k arbitrary: idx v out)
  case 0
  then show ?case by simp
next
  case (Suc k)
  from Suc.prems obtain s where
    s: "sumChannels (channels b) (numSamples b) (position v) 0 = Inr s"
    by (auto split: sum.splits)
  show ?case
  proof (cases "real_of_int (numSamples b) \<le> position v + pitchRatio v")
    case True
    with Suc.prems s show ?thesis by (auto simp: Let_def clearCurrentNote_def)
  next
    case False
    with Suc.prems s obtain out1 where
      "renderFrames k b (idx + 1) (v\<lparr>position := position v + pitchRatio v\<rparr>) out1 = Inr (v', out')"
      by (auto simp: Let_def split: sum.splits)
    from Suc.IH[OF this] show ?thesis by simp
  qed
qed

lemma renderNextBlock_pitchRatio:
  "renderNextBlock hp v out st n = Inr (v', out') \<Longrightarrow> pitchRatio v' = pitchRatio v"
  by (auto simp: renderNextBlock_def renderFrames_pitchRatio split: if_splits option.splits)

lemma renderVoices_unshifted:
  "renderVoices hp vs out n = Inr (vs', out') \<Longrightarrow> unshifted vs \<Longrightarrow> unshifted vs'"
proof (induction vs arbitrary: out vs')
  case Nil
  then show ?case by simp
next
  case (Cons v vs)
  from Cons.prems(1) obtain v' out1 vs1 where
    a: "renderNextBlock hp v out 0 n = Inr (v', out1)" and
    b: "renderVoices hp vs out1 n = Inr (vs1, out')" and c: "vs' = v' # vs1"
    by (auto split: sum.splits)
  from Cons.IH[OF b] Cons.prems(2) have "unshifted vs1" by (simp add: unshifted_def)
  moreover have "pitchRatio v' = 1" using renderNextBlock_pitchRatio[OF a] Cons.prems(2)
    by (simp add: unshifted_def)
  ultimately show ?case using c by (simp add: unshifted_def)
qed

lemma processBlock_unshifted:
  "processBlock steal buf n ms st = Inr (st', out) \<Longrightarrow> unshifted (voices st) \<Longrightarrow> unshifted (voices st')"
proof -
  assume a: "processBlock steal buf n ms st = Inr (st', out)" and u: "unshifted (voices st)"
  let ?st1 = "fold (handleMidiEvent steal) (ms @ midiCollector st) (st\<lparr>midiCollector := []\<rparr>)"
  have u1: "unshifted (voices ?st1)" using u by (intro fold_handleMidiEvent_unshifted) simp
  from a obtain vs where r: "renderVoices (freeStore ?st1) (voices ?st1) buf n = Inr (vs, out)"
    and s: "st' = ?st1\<lparr>voices := vs\<rparr>"
    by (auto simp: processBlock_def Let_def split: sum.splits)
  from renderVoices_unshifted[OF r u1] s show ?thesis by simp
qed

text \<open>Control-side operations leave the voices alone.\<close>

lemma voices_clearSample [simp]: "voices (clearSample b st) = voices st"
  by (simp add: clearSample_def split: prod.splits)

lemma voices_clearMidiNoteSample [simp]: "voices (clearMidiNoteSample n st) = voices st"
  by (simp add: clearMidiNoteSample_def split: prod.splits)

lemma voices_setNoteMapping [simp]: "voices (setNoteMapping b n st) = voices st"
  by (simp add: setNoteMapping_def)

lemma voices_loadSampleForMidiNote [simp]:
  "voices (snd (loadSampleForMidiNote fs n f st)) = voices st"
  by (simp add: loadSampleForMidiNote_def Let_def split: option.splits)

lemma voices_handleIncomingMidiMessage [simp]:
  "voices (sampler (handleIncomingMidiMessage m ed)) = voices (sampler ed)"
  by (cases m) (simp_all add: handleIncomingMidiMessage_def handleMidiMessage_def trackNote_def Let_def)

lemma voices_buttonClicked [simp]: "voices (sampler (buttonClicked b ed)) = voices (sampler ed)"
  by (cases b) (simp_all add: Let_def)

lemma voices_loadSampleForButton [simp]:
  "voices (sampler (loadSampleForButton fs b f ed)) = voices (sampler ed)"
proof -
  have "voices (snd (loadSampleForMidiNote fs (getNoteMapping (sampler ed) b) f (sampler ed)))
     = voices (sampler ed)" by simp
  then show ?thesis
    by (cases "loadSampleForMidiNote fs (getNoteMapping (sampler ed) b) f (sampler ed)")
       (auto simp: loadSampleForButton_def Let_def startNoteOffTimer_def addMessageToQueue_def
          split: bool.splits)
qed

lemma voices_mouseDown [simp]:
  "voices (sampler (mouseDown fs r b f ed)) = voices (sampler ed)"
  by (simp add: mouseDown_def Let_def startNoteOffTimer_def addMessageToQueue_def)

lemma voices_noteOffTimerElapsed [simp]:
  "voices (sampler (noteOffTimerElapsed ed)) = voices (sampler ed)"
  by (simp add: noteOffTimerElapsed_def addMessageToQueue_def)

lemma voices_importButtons [simp]:
  "voices (sampler (importButtons bs ed)) = voices (sampler ed)"
  by (induction bs arbitrary: ed) simp_all

lemma voices_importNotes [simp]:
  "voices (sampler (snd (snd (importNotes fs ns (l, f, ed))))) = voices (sampler ed)"
proof (induction ns arbitrary: l f ed)
  case Nil
  then show ?case by simp
next
  case (Cons e ns)
  have "voices (snd (loadSampleForMidiNote fs (ne_midiNote e) (ne_filePath e) (sampler ed)))
     = voices (sampler ed)" by simp
  then show ?case using Cons.IH
    by (cases "loadSampleForMidiNote fs (ne_midiNote e) (ne_filePath e) (sampler ed)")
       (auto split: bool.splits)
qed

lemma voices_loadAllSamplesFromJson [simp]:
  "voices (sampler (snd (snd (snd (loadAllSamplesFromJson fs j ed))))) = voices (sampler ed)"
proof (cases j)
  case None
  then show ?thesis by (simp add: loadAllSamplesFromJson_def)
next
  case (Some d)
  define ed2 where "ed2 = (case doc_buttons d of
       Some ba \<Rightarrow> importButtons ba (case doc_oneShotMode d of
                        Some b \<Rightarrow> ed\<lparr>isOneShotMode := b, sampler := (sampler ed)\<lparr>oneShotEnabled := b\<rparr>\<rparr>
                      | None \<Rightarrow> ed)
     | None \<Rightarrow> (case doc_oneShotMode d of
                        Some b \<Rightarrow> ed\<lparr>isOneShotMode := b, sampler := (sampler ed)\<lparr>oneShotEnabled := b\<rparr>\<rparr>
                      | None \<Rightarrow> ed))"
  have v2: "voices (sampler ed2) = voices (sampler ed)"
    by (simp add: ed2_def split: option.splits)
  show ?thesis
  proof (cases "doc_midiNotes d")
    case None
    then show ?thesis using Some v2 by (simp add: loadAllSamplesFromJson_def Let_def ed2_def)
  next
    case (Some ns)
    have "voices (sampler (snd (snd (importNotes fs ns (0, 0, ed2))))) = voices (sampler ed)"
      using v2 by simp
    then show ?thesis using Some \<open>j = Some d\<close>
      by (simp add: loadAllSamplesFromJson_def Let_def ed2_def split: prod.splits)
  qed
qed

lemma step_unshifted:
  "step fs steal e ed = Inr ed' \<Longrightarrow> unshifted (voices (sampler ed)) \<Longrightarrow> unshifted (voices (sampler ed'))"
proof (cases e)
  case (AudioBlock buf n)
  assume a: "step fs steal e ed = Inr ed'" and u: "unshifted (voices (sampler ed))"
  from a AudioBlock obtain st out where p: "processBlock steal buf n [] (sampler ed) = Inr (st, out)"
    and e': "ed' = ed\<lparr>sampler := st\<rparr>" by (auto split: sum.splits)
  from processBlock_unshifted[OF p u] e' show ?thesis by simp
next
  case (ImportSettings j)
  assume a: "step fs steal e ed = Inr ed'" and u: "unshifted (voices (sampler ed))"
  from a ImportSettings have "ed' = snd (snd (snd (loadAllSamplesFromJson fs j ed)))"
    by (auto split: prod.splits)
  with u show ?thesis by simp
qed auto

lemma run_unshifted:
  "run fs steal es ed = Inr ed' \<Longrightarrow> unshifted (voices (sampler ed)) \<Longrightarrow> unshifted (voices (sampler ed'))"
proof (induction es arbitrary: ed)
  case Nil
  then show ?case by simp
next
  case (Cons e es)
  from Cons.prems(1) obtain ed1 where s: "step fs steal e ed = Inr ed1" and r: "run fs steal es ed1 = Inr ed'"
    by (auto split: sum.splits)
  from Cons.IH[OF r step_unshifted[OF s Cons.prems(2)]] show ?case .
qed

section \<open>Learn modes, loading and clearing\<close>

lemma firstInactive_Some:
  "firstInactive vs = Some i \<Longrightarrow> i < length vs \<and> currentlyPlayingNote (vs ! i) < 0"
proof (induction vs arbitrary: i)
  case Nil
  then show ?case by simp
next
  case (Cons v vs)
  show ?case
  proof (cases "currentlyPlayingNote v < 0")
    case True
    with Cons.prems show ?thesis by simp
  next
    case False
    with Cons.prems obtain j where "firstInactive vs = Some j" "i = Suc j" by auto
    with Cons.IH[of j] show ?thesis by simp
  qed
qed

lemma firstInactive_map:
  "(\<And>v. currentlyPlayingNote (f v) = currentlyPlayingNote v) \<Longrightarrow>
   firstInactive (map f vs) = firstInactive vs"
  by (induction vs) simp_all

lemma currentlyPlayingNote_stopNote_tail [simp]:
  "currentlyPlayingNote (stopNote os x True v) = currentlyPlayingNote v"
  by (simp add: stopNote_def Let_def)

lemma synth_noteOn_none_apply:
  "\<forall>s\<in>set ss. \<not> appliesToNote s n \<Longrightarrow> synth_noteOn steal os n vel ss vs = vs"
  by (induction ss) simp_all

lemma synth_noteOn_one_sound:
  assumes "filter (\<lambda>s. appliesToNote s n) ss = [s]" and "firstInactive vs = Some i"
  shows "synth_noteOn steal os n vel ss vs =
     (map (\<lambda>v. if currentlyPlayingNote v = n then stopNote os 1 True v else v) vs)
       [i := startVoice os s n vel
               (map (\<lambda>v. if currentlyPlayingNote v = n then stopNote os 1 True v else v) vs ! i)]"
  using assms(1)
proof (induction ss)
  case Nil
  then show ?case by simp
next
  case (Cons x xs)
  let ?vs1 = "map (\<lambda>v. if currentlyPlayingNote v = n then stopNote os 1 True v else v) vs"
  show ?case
  proof (cases "appliesToNote x n")
    case True
    with Cons.prems have x: "x = s" and none: "filter (\<lambda>s. appliesToNote s n) xs = []" by simp_all
    from none have na: "\<forall>s\<in>set xs. \<not> appliesToNote s n" by (simp add: filter_empty_conv)
    have fi: "firstInactive ?vs1 = Some i"
      using assms(2) by (subst firstInactive_map) simp_all
    have il: "i < length ?vs1" using firstInactive_Some[OF fi] by simp
    show ?thesis using True x fi il na
      by (simp add: Let_def appliesToChannel_def findFreeVoice_def synth_noteOn_none_apply
          del: map_map)
  next
    case False
    with Cons.prems have "filter (\<lambda>s. appliesToNote s n) xs = [s]" by simp
    from Cons.IH[OF this] False show ?thesis by simp
  qed
qed

lemma startVoice_started:
  "isPlaying (startVoice os s n vel v) \<and> midiNoteNumber (startVoice os s n vel v) = n \<and>
   v_sampleBuffer (startVoice os s n vel v) = snd_sampleBuffer s \<and> position (startVoice os s n vel v) = 0"
  by (simp add: startVoice_def startNote_def Let_def)

lemma handleMidiEvent_starts_voice:
  assumes "filter (\<lambda>s. appliesToNote s n) (sounds st) = [s]" and "firstInactive (voices st) = Some i"
  shows "i < length (voices st) \<and>
     isPlaying (voices (handleMidiEvent steal (NoteOn n vel) st) ! i) \<and>
     midiNoteNumber (voices (handleMidiEvent steal (NoteOn n vel) st) ! i) = n \<and>
     v_sampleBuffer (voices (handleMidiEvent steal (NoteOn n vel) st) ! i) = snd_sampleBuffer s"
proof -
  have il: "i < length (voices st)" using firstInactive_Some[OF assms(2)] by simp
  show ?thesis
    using il by (simp add: synth_noteOn_one_sound[OF assms] startVoice_started)
qed

lemma processBlock_dispatch:
  "midiCollector st = q @ [m] \<Longrightarrow>
   processBlock steal buffer k [] st =
     (let st1 = handleMidiEvent steal m (fold (handleMidiEvent steal) q (st\<lparr>midiCollector := []\<rparr>))
      in case renderVoices (freeStore st1) (voices st1) buffer k of
           Inl e \<Rightarrow> Inl e
         | Inr (vs, out) \<Rightarrow> Inr (st1\<lparr>voices := vs\<rparr>, out))"
proof -
  assume a: "midiCollector st = q @ [m]"
  have f: "fold (handleMidiEvent steal) ([] @ midiCollector st) X =
      handleMidiEvent steal m (fold (handleMidiEvent steal) q X)" for X
    using a by simp
  show ?thesis unfolding processBlock_def Let_def f ..
qed

lemma example_learning72_reached:
  "run example_fs no_steal
     [ImportSettings (Some doc72), ButtonClicked MidiLearnButton, MouseDown False 5 []]
     example_editor = Inr example_learning72"
  by (simp add: example_learning72_def example_learning_def control_defs)

lemma example_learning72_handled:
  "sounds (sampler (handleIncomingMidiMessage (NoteOn 72 100) example_learning72)) = [sound72] \<and>
   firstInactive (voices (sampler (handleIncomingMidiMessage (NoteOn 72 100) example_learning72)))
     = Some 0 \<and>
   midiCollector (sampler example_learning72) = [] \<and>
   isMidiLearning example_learning72 \<and> learningButtonIndex example_learning72 = 5 \<and>
   length (noteMapping (sampler example_learning72)) = 16"
  by (simp add: example_learning72_def example_learning_def control_defs sound72_def
      MidiSamplerVoice_init_def numeral_nat)

text \<open>
  C1 (as stated). In the start state with the decodable file imported for note 72, MIDI
  Learn armed and pad 5 selected, a note-on for note 72 rebinds pad 5 to 72 and is also
  in the collector queue afterwards; the next audio block hands it to the synthesiser
  and voice 0, idle before, plays note 72. The note-on is forwarded and a voice
  starts.
\<close>

theorem midi_learn_note_on_forwarded:
  "\<exists>ed ed'.
     run example_fs no_steal
       [ImportSettings (Some doc72), ButtonClicked MidiLearnButton, MouseDown False 5 [],
        IncomingMidi (NoteOn 72 100)] example_editor = Inr ed \<and>
     getNoteMapping (sampler ed) 5 = 72 \<and>
     midiCollector (sampler ed) = [NoteOn 72 100] \<and>
     \<not> isPlaying (voices (sampler ed) ! 0) \<and>
     step example_fs no_steal (AudioBlock [[0]] 1) ed = Inr ed' \<and>
     isPlaying (voices (sampler ed') ! 0) \<and>
     midiNoteNumber (voices (sampler ed') ! 0) = 72"
proof -
  let ?es = "[ImportSettings (Some doc72), ButtonClicked MidiLearnButton, MouseDown False 5 [],
        IncomingMidi (NoteOn 72 100)]"
  obtain ed where ed: "run example_fs no_steal ?es example_editor = Inr ed"
    and a: "getNoteMapping (sampler ed) 5 = 72" "midiCollector (sampler ed) = [NoteOn 72 100]"
      "\<not> isPlaying (voices (sampler ed) ! 0)"
    using learn_run_before_block
    by (cases "run example_fs no_steal ?es example_editor") auto
  have "case step example_fs no_steal (AudioBlock [[0]] 1) ed of
     Inr ed \<Rightarrow> isPlaying (voices (sampler ed) ! 0) \<and>
               midiNoteNumber (voices (sampler ed) ! 0) = 72 \<and>
               pitchRatio (voices (sampler ed) ! 0) = 1
   | Inl e \<Rightarrow> False"
    using learn_run_after_block unfolding run_snoc ed by simp
  then obtain ed' where "step example_fs no_steal (AudioBlock [[0]] 1) ed = Inr ed'"
    "isPlaying (voices (sampler ed') ! 0)" "midiNoteNumber (voices (sampler ed') ! 0) = 72"
    by (cases "step example_fs no_steal (AudioBlock [[0]] 1) ed") auto
  with ed a show ?thesis by blast
qed

text \<open>
  C1 (amended). A note-on that arrives while MIDI Learn is armed and pad \<open>pad\<close> is
  selected rebinds that pad to the event's note and ends MIDI Learn. The message is not
  withheld from the engine: it is appended to the collector queue like every other
  message, handling it changes no voice, and the next audio block applies the queued
  messages in order, this note-on last, before it renders. A note-on applied to a plugin
  state in which exactly one sound applies to the note and some voice is inactive
  starts the first inactive voice with that note and that sound's buffer, whatever the
  stealing policy.
\<close>

theorem midi_learn_rebinds_pad:
  assumes "isMidiLearning ed" and "learningButtonIndex ed = pad" and "0 \<le> pad" and "pad < 16"
    and "length (noteMapping (sampler ed)) = 16"
    and "ed' = handleIncomingMidiMessage (NoteOn n vel) ed"
  shows "getNoteMapping (sampler ed') pad = n \<and>
     \<not> isMidiLearning ed' \<and>
     learningButtonIndex ed' = - 1 \<and>
     midiCollector (sampler ed') = midiCollector (sampler ed) @ [NoteOn n vel] \<and>
     voices (sampler ed') = voices (sampler ed) \<and>
     processBlock steal buffer k [] (sampler ed') =
       (let st1 = handleMidiEvent steal (NoteOn n vel)
                    (fold (handleMidiEvent steal) (midiCollector (sampler ed))
                       ((sampler ed')\<lparr>midiCollector := []\<rparr>))
        in case renderVoices (freeStore st1) (voices st1) buffer k of
             Inl e \<Rightarrow> Inl e
           | Inr (vs, out) \<Rightarrow> Inr (st1\<lparr>voices := vs\<rparr>, out)) \<and>
     (filter (\<lambda>s. appliesToNote s n) (sounds st) = [s] \<and> firstInactive (voices st) = Some i \<longrightarrow>
        i < length (voices st) \<and>
        isPlaying (voices (handleMidiEvent steal (NoteOn n vel) st) ! i) \<and>
        midiNoteNumber (voices (handleMidiEvent steal (NoteOn n vel) st) ! i) = n \<and>
        v_sampleBuffer (voices (handleMidiEvent steal (NoteOn n vel) st) ! i) = snd_sampleBuffer s)"
proof -
  have np: "nat pad < 16" using assms(3,4) by simp
  have a: "getNoteMapping (sampler ed') pad = n \<and>
     \<not> isMidiLearning ed' \<and>
     learningButtonIndex ed' = - 1 \<and>
     midiCollector (sampler ed') = midiCollector (sampler ed) @ [NoteOn n vel] \<and>
     voices (sampler ed') = voices (sampler ed)"
    using assms np
    by (simp add: handleIncomingMidiMessage_def handleMidiMessage_def trackNote_def Let_def
        setNoteMapping_def getNoteMapping_def)
  then have q: "midiCollector (sampler ed') = midiCollector (sampler ed) @ [NoteOn n vel]"
    by simp
  note b = processBlock_dispatch[OF q, of steal buffer k]
  have c: "filter (\<lambda>s. appliesToNote s n) (sounds st) = [s] \<and> firstInactive (voices st) = Some i \<longrightarrow>
        i < length (voices st) \<and>
        isPlaying (voices (handleMidiEvent steal (NoteOn n vel) st) ! i) \<and>
        midiNoteNumber (voices (handleMidiEvent steal (NoteOn n vel) st) ! i) = n \<and>
        v_sampleBuffer (voices (handleMidiEvent steal (NoteOn n vel) st) ! i) = snd_sampleBuffer s"
    using handleMidiEvent_starts_voice[of n st s i steal vel] by blast
  from a b c show ?thesis by (intro conjI) simp_all
qed

theorem midi_learn_rebinds_pad_witness:
  "isMidiLearning example_learning72 \<and> learningButtonIndex example_learning72 = 5 \<and>
   getNoteMapping (sampler (handleIncomingMidiMessage (NoteOn 72 100) example_learning72)) 5 = 72 \<and>
   \<not> isMidiLearning (handleIncomingMidiMessage (NoteOn 72 100) example_learning72) \<and>
   midiCollector (sampler (handleIncomingMidiMessage (NoteOn 72 100) example_learning72)) =
     [NoteOn 72 100] \<and>
   filter (\<lambda>s. appliesToNote s 72)
     (sounds (sampler (handleIncomingMidiMessage (NoteOn 72 100) example_learning72))) = [sound72] \<and>
   firstInactive (voices (sampler (handleIncomingMidiMessage (NoteOn 72 100) example_learning72)))
     = Some 0 \<and>
   isPlaying (voices (handleMidiEvent no_steal (NoteOn 72 100)
      ((sampler (handleIncomingMidiMessage (NoteOn 72 100) example_learning72))
         \<lparr>midiCollector := []\<rparr>)) ! 0) \<and>
   midiNoteNumber (voices (handleMidiEvent no_steal (NoteOn 72 100)
      ((sampler (handleIncomingMidiMessage (NoteOn 72 100) example_learning72))
         \<lparr>midiCollector := []\<rparr>)) ! 0) = 72"
proof -
  let ?ed' = "handleIncomingMidiMessage (NoteOn 72 100) example_learning72"
  let ?st = "(sampler ?ed')\<lparr>midiCollector := []\<rparr>"
  note h = example_learning72_handled
  have f: "filter (\<lambda>s. appliesToNote s 72) (sounds ?st) = [sound72]"
    "firstInactive (voices ?st) = Some 0"
    using h by (simp_all add: appliesToNote_def sound72_def)
  from midi_learn_rebinds_pad[where ed = example_learning72 and pad = 5 and n = 72 and vel = 100
      and ed' = ?ed' and st = ?st and s = sound72 and i = 0 and steal = no_steal] h f
  show ?thesis by simp
qed

text \<open>
  C2 (as stated). Note 60 holds the decodable file; loading a file that exists and does
  not decode for note 60 reports failure and leaves the slot different from what it was:
  it is no longer loaded.
\<close>

theorem failed_load_loses_sample:
  "isLoaded (midiNoteSamples loaded60 ! 60) \<and>
   fst (loadSampleForMidiNote example_fs 60 ''bad.wav'' loaded60) = False \<and>
   \<not> isLoaded (midiNoteSamples (snd (loadSampleForMidiNote example_fs 60 ''bad.wav'' loaded60)) ! 60) \<and>
   midiNoteSamples (snd (loadSampleForMidiNote example_fs 60 ''bad.wav'' loaded60)) ! 60 \<noteq>
     midiNoteSamples loaded60 ! 60"
  by (simp add: loaded60_eq loadSampleForMidiNote_def clearMidiNoteSample_def Let_def
      SamplerPlugin_init_def ButtonSample_clear_def ButtonSample_init_def removeSound_def
      numeral_nat)

text \<open>
  C2 (amended). When the file does not decode, both loaders report failure. For an index
  out of range the state is unchanged. For an index in range the state is the one
  \<open>clearSample\<close> (for a pad) or \<open>clearMidiNoteSample\<close> (for a note) produces: the slot
  holds no buffer, an empty path, rate 0, is not loaded and has root note 60, and the
  buffer it held is gone from the store.
\<close>

theorem failed_load_clears_slot:
  assumes "createReaderFor fs file = None"
  shows "loadSampleForMidiNote fs n file st =
           (False, if 0 \<le> n \<and> n < 128 then clearMidiNoteSample n st else st) \<and>
     loadSample fs b file st = (False, if 0 \<le> b \<and> b < 16 then clearSample b st else st) \<and>
     (0 \<le> n \<and> n < 128 \<and> length (midiNoteSamples st) = 128 \<longrightarrow>
        midiNoteSamples (clearMidiNoteSample n st) ! nat n = ButtonSample_init \<and>
        (\<forall>a. sampleBuffer (midiNoteSamples st ! nat n) = Some a \<longrightarrow>
             freeStore (clearMidiNoteSample n st) a = None)) \<and>
     (0 \<le> b \<and> b < 16 \<and> length (buttons st) = 16 \<longrightarrow>
        buttons (clearSample b st) ! nat b = ButtonSample_init \<and>
        (\<forall>a. sampleBuffer (buttons st ! nat b) = Some a \<longrightarrow>
             freeStore (clearSample b st) a = None))"
proof (intro conjI impI)
  show "loadSampleForMidiNote fs n file st =
           (False, if 0 \<le> n \<and> n < 128 then clearMidiNoteSample n st else st)"
    using assms by (auto simp: loadSampleForMidiNote_def Let_def)
  show "loadSample fs b file st = (False, if 0 \<le> b \<and> b < 16 then clearSample b st else st)"
    using assms by (auto simp: loadSample_def Let_def)
next
  assume "0 \<le> n \<and> n < 128 \<and> length (midiNoteSamples st) = 128"
  then show "midiNoteSamples (clearMidiNoteSample n st) ! nat n = ButtonSample_init"
    and "\<forall>a. sampleBuffer (midiNoteSamples st ! nat n) = Some a \<longrightarrow>
             freeStore (clearMidiNoteSample n st) a = None"
    by (auto simp: clearMidiNoteSample_def ButtonSample_clear_def ButtonSample_init_def
        split: option.splits)
next
  assume "0 \<le> b \<and> b < 16 \<and> length (buttons st) = 16"
  then show "buttons (clearSample b st) ! nat b = ButtonSample_init"
    and "\<forall>a. sampleBuffer (buttons st ! nat b) = Some a \<longrightarrow>
             freeStore (clearSample b st) a = None"
    by (auto simp: clearSample_def ButtonSample_clear_def ButtonSample_init_def
        split: option.splits)
qed

theorem failed_load_clears_slot_witness:
  "createReaderFor example_fs ''bad.wav'' = None \<and>
   loadSampleForMidiNote example_fs 60 ''bad.wav'' loaded60 =
     (False, clearMidiNoteSample 60 loaded60) \<and>
   loadSample example_fs 3 ''bad.wav'' loaded60 = (False, clearSample 3 loaded60) \<and>
   midiNoteSamples (clearMidiNoteSample 60 loaded60) ! 60 = ButtonSample_init \<and>
   freeStore (clearMidiNoteSample 60 loaded60) 0 = None \<and>
   buttons (clearSample 3 loaded60) ! 3 = ButtonSample_init"
proof -
  have h: "createReaderFor example_fs ''bad.wav'' = None" by simp
  have l: "length (midiNoteSamples loaded60) = 128" "length (buttons loaded60) = 16"
    "sampleBuffer (midiNoteSamples loaded60 ! 60) = Some 0"
    by (simp_all add: loaded60_eq SamplerPlugin_init_def)
  from failed_load_clears_slot[OF h, of 60 loaded60 3] l h show ?thesis by simp
qed

text \<open>
  C3 (as stated). With Sample Learn armed, a note-on for note 72 leaves Sample Learn armed
  and sits in the collector queue; a click on pad 0 with the decodable file chosen then
  loads the file for note 36, the note pad 0 is bound to, and note 72 stays without a
  sample. The note-on is not consumed and does not name the target.
\<close>

theorem sample_learn_ignores_note_on:
  "\<exists>ed ed'.
     run example_fs no_steal
       [ButtonClicked SampleLearnButton, IncomingMidi (NoteOn 72 100)] example_editor = Inr ed \<and>
     isSampleLearning ed \<and>
     midiCollector (sampler ed) = [NoteOn 72 100] \<and>
     step example_fs no_steal (MouseDown False 0 ''a.wav'') ed = Inr ed' \<and>
     \<not> isLoaded (midiNoteSamples (sampler ed') ! 72) \<and>
     isLoaded (midiNoteSamples (sampler ed') ! 36) \<and>
     filePath (midiNoteSamples (sampler ed') ! 36) = ''a.wav''"
proof -
  let ?es = "[ButtonClicked SampleLearnButton, IncomingMidi (NoteOn 72 100)]"
  obtain ed where ed: "run example_fs no_steal ?es example_editor = Inr ed"
    and a: "isSampleLearning ed" "midiCollector (sampler ed) = [NoteOn 72 100]"
    and b: "case step example_fs no_steal (MouseDown False 0 ''a.wav'') ed of
                  Inr ed' \<Rightarrow> \<not> isLoaded (midiNoteSamples (sampler ed') ! 72) \<and>
                             isLoaded (midiNoteSamples (sampler ed') ! 36) \<and>
                             filePath (midiNoteSamples (sampler ed') ! 36) = ''a.wav'' \<and>
                             \<not> isSampleLearning ed'
                | Inl e \<Rightarrow> False"
    using sample_learn_run
    by (cases "run example_fs no_steal ?es example_editor") auto
  from b obtain ed' where "step example_fs no_steal (MouseDown False 0 ''a.wav'') ed = Inr ed'"
    "\<not> isLoaded (midiNoteSamples (sampler ed') ! 72)"
    "isLoaded (midiNoteSamples (sampler ed') ! 36)"
    "filePath (midiNoteSamples (sampler ed') ! 36) = ''a.wav''"
    by (cases "step example_fs no_steal (MouseDown False 0 ''a.wav'') ed") auto
  with ed a show ?thesis by blast
qed

text \<open>
  C3 (amended). While Sample Learn is armed (and MIDI Learn is not), an incoming MIDI
  message is appended to the collector queue and changes neither the learn state nor
  any sample or binding. The target of the subsequent load is the note bound to the pad
  that is clicked: a left click on pad \<open>pad\<close> with an existing file chosen loads that
  file with \<open>loadSampleForMidiNote\<close> for \<open>getNoteMapping pad\<close>, and Sample Learn is
  disarmed afterwards whether or not the load succeeded.
\<close>

theorem sample_learn_targets_pad_note:
  assumes "isSampleLearning ed" and "\<not> isMidiLearning ed" and "0 \<le> pad" and "pad < 16"
    and "File_exists fs chosen"
  shows "isSampleLearning (handleIncomingMidiMessage msg ed) \<and>
     midiCollector (sampler (handleIncomingMidiMessage msg ed)) =
       midiCollector (sampler ed) @ [msg] \<and>
     midiNoteSamples (sampler (handleIncomingMidiMessage msg ed)) = midiNoteSamples (sampler ed) \<and>
     noteMapping (sampler (handleIncomingMidiMessage msg ed)) = noteMapping (sampler ed) \<and>
     midiNoteSamples (sampler (mouseDown fs False pad chosen ed)) =
       midiNoteSamples (snd (loadSampleForMidiNote fs (getNoteMapping (sampler ed) pad) chosen
                              (sampler ed))) \<and>
     \<not> isSampleLearning (mouseDown fs False pad chosen ed)"
proof -
  have m: "isSampleLearning (handleIncomingMidiMessage msg ed) \<and>
     midiCollector (sampler (handleIncomingMidiMessage msg ed)) =
       midiCollector (sampler ed) @ [msg] \<and>
     midiNoteSamples (sampler (handleIncomingMidiMessage msg ed)) = midiNoteSamples (sampler ed) \<and>
     noteMapping (sampler (handleIncomingMidiMessage msg ed)) = noteMapping (sampler ed)"
    using assms(1,2)
    by (cases msg)
       (simp_all add: handleIncomingMidiMessage_def handleMidiMessage_def trackNote_def Let_def)
  have c: "midiNoteSamples (sampler (mouseDown fs False pad chosen ed)) =
       midiNoteSamples (snd (loadSampleForMidiNote fs (getNoteMapping (sampler ed) pad) chosen
                              (sampler ed))) \<and>
     \<not> isSampleLearning (mouseDown fs False pad chosen ed)"
    using assms
    by (cases "loadSampleForMidiNote fs (getNoteMapping (sampler ed) pad) chosen (sampler ed)")
       (auto simp: mouseDown_def loadSampleForButton_def Let_def startNoteOffTimer_def
          addMessageToQueue_def split: bool.splits)
  from m c show ?thesis by simp
qed

theorem sample_learn_targets_pad_note_witness:
  "isSampleLearning example_sample_learning \<and> File_exists example_fs ''a.wav'' \<and>
   isSampleLearning (handleIncomingMidiMessage (NoteOn 72 100) example_sample_learning) \<and>
   midiCollector (sampler (handleIncomingMidiMessage (NoteOn 72 100) example_sample_learning)) =
     [NoteOn 72 100] \<and>
   midiNoteSamples (sampler (mouseDown example_fs False 0 ''a.wav'' example_sample_learning)) =
     midiNoteSamples (snd (loadSampleForMidiNote example_fs 36 ''a.wav''
                            (sampler example_sample_learning))) \<and>
   \<not> isSampleLearning (mouseDown example_fs False 0 ''a.wav'' example_sample_learning)"
proof -
  have h: "isSampleLearning example_sample_learning" "\<not> isMidiLearning example_sample_learning"
    "midiCollector (sampler example_sample_learning) = []"
    "getNoteMapping (sampler example_sample_learning) 0 = 36"
    by (simp_all add: example_sample_learning_def example_editor_def SamplerEditor_init_def
        SamplerPlugin_init_def getNoteMapping_def)
  have f: "File_exists example_fs ''a.wav''" by simp
  from sample_learn_targets_pad_note[of example_sample_learning 0 example_fs "''a.wav''"
      "NoteOn 72 100"] h f
  show ?thesis by simp
qed

text \<open>
  C9 (the code at the failing input). A sample is loaded on pad 0 and starts to play; one
  frame later the same file is loaded on pad 0 again. The reload clears the slot, which
  deletes the buffer at address 0 while voice 0 is playing from it: the voice holds a
  pointer the store no longer has, and the next audio block reads freed memory.
\<close>

theorem reload_frees_buffer_in_use:
  "\<exists>ed.
     run example_fs no_steal
       [MouseDoubleClick 0 ''a.wav'', AudioBlock [[0]] 1, MouseDoubleClick 0 ''a.wav'']
       example_editor = Inr ed \<and>
     isPlaying (voices (sampler ed) ! 0) \<and>
     v_sampleBuffer (voices (sampler ed) ! 0) = Some 0 \<and>
     freeStore (sampler ed) 0 = None \<and>
     step example_fs no_steal (AudioBlock [[0]] 1) ed = Inl UseAfterFree"
  using reload_run_before_block
  by (cases "run example_fs no_steal
       [MouseDoubleClick 0 ''a.wav'', AudioBlock [[0]] 1, MouseDoubleClick 0 ''a.wav'']
       example_editor") auto

lemma empty_files [simp]:
  "createReaderFor empty_fs ''e.wav'' = Some empty_reader" "File_exists empty_fs ''e.wav''"
  by (simp_all add: createReaderFor_def empty_fs_def File_exists_def)

lemma empty_sample_run:
  "case run empty_fs no_steal [MouseDoubleClick 0 ''e.wav''] example_editor of
     Inr ed \<Rightarrow>
       isLoaded (midiNoteSamples (sampler ed) ! 36) \<and>
       midiCollector (sampler ed) = [NoteOn 36 100] \<and>
       isPlaying (voices (handleMidiEvent no_steal (NoteOn 36 100) (sampler ed)) ! 0) \<and>
       position (voices (handleMidiEvent no_steal (NoteOn 36 100) (sampler ed)) ! 0) = 0 \<and>
       v_sampleBuffer (voices (handleMidiEvent no_steal (NoteOn 36 100) (sampler ed)) ! 0) = Some 0 \<and>
       map_option numSamples (freeStore (sampler ed) 0) = Some 0 \<and>
       renderNextBlock (freeStore (sampler ed))
         (voices (handleMidiEvent no_steal (NoteOn 36 100) (sampler ed)) ! 0) [[0]] 0 1 =
         Inl DivideByZero \<and>
       step empty_fs no_steal (AudioBlock [[0]] 1) ed = Inl DivideByZero
   | Inl e \<Rightarrow> False"
  by (simp add: example_editor_def SamplerEditor_init_def SamplerPlugin_init_def
      Let_def File_exists_def empty_fs_def createReaderFor_def
      loadSampleForMidiNote_def clearMidiNoteSample_def ButtonSample_clear_def ButtonSample_init_def
      empty_reader_def getNoteMapping_def removeSound_def loadSampleForButton_def
      startNoteOffTimer_def addMessageToQueue_def audio_defs)


text \<open>
  C4 (the code at the failing input). A decodable file without frames is loaded on pad 0;
  the load succeeds and queues the pad's note-on. Dispatching that note-on starts voice
  0 on the empty buffer: the voice is playing and its playhead 0 already equals the
  frame count 0. The frame loop takes the playhead modulo the frame count before it
  compares the playhead with the frame count, so rendering that voice divides by zero
  instead of stopping it, and the audio block faults.
\<close>

theorem empty_sample_render_faults:
  "\<exists>ed v.
     run empty_fs no_steal [MouseDoubleClick 0 ''e.wav''] example_editor = Inr ed \<and>
     isLoaded (midiNoteSamples (sampler ed) ! 36) \<and>
     midiCollector (sampler ed) = [NoteOn 36 100] \<and>
     v = voices (handleMidiEvent no_steal (NoteOn 36 100) (sampler ed)) ! 0 \<and>
     isPlaying v \<and> position v = 0 \<and> v_sampleBuffer v = Some 0 \<and>
     map_option numSamples (freeStore (sampler ed) 0) = Some 0 \<and>
     renderNextBlock (freeStore (sampler ed)) v [[0]] 0 1 = Inl DivideByZero \<and>
     step empty_fs no_steal (AudioBlock [[0]] 1) ed = Inl DivideByZero"
  using empty_sample_run
  by (cases "run empty_fs no_steal [MouseDoubleClick 0 ''e.wav''] example_editor") auto


text \<open>
  C10. A sound applies to a note only if the note is its root note, so a voice started
  with a sound that applies to the note has pitch ratio 1. The synthesiser starts voices
  only with such sounds, whatever its stealing policy: in every state the program
  reaches from its start state, under any file system and any list of events, every
  voice has pitch ratio 1.
\<close>

theorem started_voices_unshifted:
  "(appliesToNote s n \<longrightarrow> pitchRatio (startNote n vel (Some s) v) = 1) \<and>
   (run fs steal es (SamplerEditor_init SamplerPlugin_init) = Inr ed \<longrightarrow>
      unshifted (voices (sampler ed)))"
proof (intro conjI impI)
  assume "appliesToNote s n"
  then show "pitchRatio (startNote n vel (Some s) v) = 1" by (rule startNote_applies_ratio)
next
  assume r: "run fs steal es (SamplerEditor_init SamplerPlugin_init) = Inr ed"
  have "unshifted (voices (sampler (SamplerEditor_init SamplerPlugin_init)))"
    by (simp add: unshifted_def SamplerEditor_init_def SamplerPlugin_init_def
        MidiSamplerVoice_init_def)
  with r show "unshifted (voices (sampler ed))" by (rule run_unshifted)
qed

theorem started_voices_unshifted_witness:
  "\<exists>ed.
     run example_fs no_steal
       [ImportSettings (Some doc72), ButtonClicked MidiLearnButton, MouseDown False 5 [],
        IncomingMidi (NoteOn 72 100), AudioBlock [[0]] 1] example_editor = Inr ed \<and>
     isPlaying (voices (sampler ed) ! 0) \<and> midiNoteNumber (voices (sampler ed) ! 0) = 72 \<and>
     unshifted (voices (sampler ed))"
proof -
  let ?es = "[ImportSettings (Some doc72), ButtonClicked MidiLearnButton, MouseDown False 5 [],
        IncomingMidi (NoteOn 72 100), AudioBlock [[0]] 1]"
  obtain ed where ed: "run example_fs no_steal ?es example_editor = Inr ed"
    and a: "isPlaying (voices (sampler ed) ! 0)" "midiNoteNumber (voices (sampler ed) ! 0) = 72"
    using learn_run_after_block
    by (cases "run example_fs no_steal ?es example_editor") auto
  from started_voices_unshifted[of _ _ _ _ example_fs no_steal ?es ed] ed
  have "unshifted (voices (sampler ed))" by (simp add: example_editor_def)
  with ed a show ?thesis by blast
qed

section \<open>Import and export\<close>

lemma example_files_gone [simp]:
  "\<not> File_exists example_fs ''gone.wav''" "createReaderFor example_fs ''gone.wav'' = None"
  "createReaderFor example_fs [] = None"
  by (simp_all add: createReaderFor_def example_fs_def File_exists_def)


lemma noteMapping_clearMidiNoteSample [simp]:
  "noteMapping (clearMidiNoteSample n st) = noteMapping st"
  by (simp add: clearMidiNoteSample_def split: prod.splits)

lemma noteMapping_loadSampleForMidiNote [simp]:
  "noteMapping (snd (loadSampleForMidiNote fs n f st)) = noteMapping st"
  by (simp add: loadSampleForMidiNote_def Let_def split: option.splits)

lemma length_slots_clearMidiNoteSample [simp]:
  "length (midiNoteSamples (clearMidiNoteSample n st)) = length (midiNoteSamples st)"
  by (simp add: clearMidiNoteSample_def split: prod.splits)

lemma length_slots_loadSampleForMidiNote [simp]:
  "length (midiNoteSamples (snd (loadSampleForMidiNote fs n f st))) = length (midiNoteSamples st)"
  by (simp add: loadSampleForMidiNote_def Let_def split: option.splits)

lemma slots_clearMidiNoteSample_other:
  "0 \<le> m \<Longrightarrow> m \<noteq> n \<Longrightarrow>
   midiNoteSamples (clearMidiNoteSample n st) ! nat m = midiNoteSamples st ! nat m"
  by (auto simp: clearMidiNoteSample_def split: prod.splits)

lemma slots_loadSampleForMidiNote_other:
  "0 \<le> m \<Longrightarrow> m \<noteq> n \<Longrightarrow>
   midiNoteSamples (snd (loadSampleForMidiNote fs n f st)) ! nat m = midiNoteSamples st ! nat m"
  by (auto simp: loadSampleForMidiNote_def Let_def slots_clearMidiNoteSample_other
      split: option.splits)

lemma loadSampleForMidiNote_success:
  "0 \<le> n \<Longrightarrow> n < 128 \<Longrightarrow> createReaderFor fs f = Some r \<Longrightarrow>
   length (midiNoteSamples st) = 128 \<Longrightarrow>
   fst (loadSampleForMidiNote fs n f st) \<and>
   isLoaded (midiNoteSamples (snd (loadSampleForMidiNote fs n f st)) ! nat n) \<and>
   filePath (midiNoteSamples (snd (loadSampleForMidiNote fs n f st)) ! nat n) = f"
  by (simp add: loadSampleForMidiNote_def Let_def)

lemma loadSampleForMidiNote_failure:
  "createReaderFor fs f = None \<Longrightarrow> \<not> fst (loadSampleForMidiNote fs n f st)"
  by (simp add: loadSampleForMidiNote_def Let_def)

lemma exists_if_reader: "createReaderFor fs f = Some r \<Longrightarrow> File_exists fs f"
  by (auto simp: createReaderFor_def File_exists_def split: option.splits)

lemma importNotes_Cons:
  "importNotes fs (e # ns) (l, f, ed) =
     importNotes fs ns
       (l + (if entry_loads fs e then 1 else 0), f + (if entry_fails fs e then 1 else 0),
        importNote fs e ed)"
proof (cases "createReaderFor fs (ne_filePath e)")
  case None
  then have "\<not> fst (loadSampleForMidiNote fs (ne_midiNote e) (ne_filePath e) (sampler ed))"
    by (rule loadSampleForMidiNote_failure)
  with None show ?thesis
    by (cases "loadSampleForMidiNote fs (ne_midiNote e) (ne_filePath e) (sampler ed)")
       (auto simp: entry_loads_def entry_fails_def importNote_def)
next
  case (Some r)
  show ?thesis
  proof (cases "0 \<le> ne_midiNote e \<and> ne_midiNote e < 128 \<and> ne_filePath e \<noteq> []")
    case True
    have "fst (loadSampleForMidiNote fs (ne_midiNote e) (ne_filePath e) (sampler ed))"
      using True Some by (simp add: loadSampleForMidiNote_def Let_def)
    with True Some exists_if_reader[OF Some] show ?thesis
      by (cases "loadSampleForMidiNote fs (ne_midiNote e) (ne_filePath e) (sampler ed)")
         (auto simp: entry_loads_def entry_fails_def importNote_def)
  next
    case False
    then show ?thesis by (auto simp: entry_loads_def entry_fails_def importNote_def)
  qed
qed

lemma importNotes_counts:
  "fst (importNotes fs ns (l, f, ed)) = l + int (length (filter (entry_loads fs) ns)) \<and>
   fst (snd (importNotes fs ns (l, f, ed))) = f + int (length (filter (entry_fails fs) ns)) \<and>
   snd (snd (importNotes fs ns (l, f, ed))) = fold (importNote fs) ns ed"
proof (induction ns arbitrary: l f ed)
  case Nil
  show ?case by simp
next
  case (Cons e ns)
  show ?case unfolding importNotes_Cons using Cons.IH by simp
qed

lemma importNote_length [simp]:
  "length (midiNoteSamples (sampler (importNote fs e ed))) = length (midiNoteSamples (sampler ed))"
  by (simp add: importNote_def)

lemma importNote_other:
  "0 \<le> m \<Longrightarrow> m \<noteq> ne_midiNote e \<Longrightarrow>
   midiNoteSamples (sampler (importNote fs e ed)) ! nat m = midiNoteSamples (sampler ed) ! nat m"
  by (simp add: importNote_def slots_loadSampleForMidiNote_other)

lemma fold_importNote_length [simp]:
  "length (midiNoteSamples (sampler (fold (importNote fs) ns ed))) = length (midiNoteSamples (sampler ed))"
  by (induction ns arbitrary: ed) simp_all



lemma importNote_loads:
  "entry_loads fs e \<Longrightarrow> length (midiNoteSamples (sampler ed)) = 128 \<Longrightarrow>
   isLoaded (midiNoteSamples (sampler (importNote fs e ed)) ! nat (ne_midiNote e)) \<and>
   filePath (midiNoteSamples (sampler (importNote fs e ed)) ! nat (ne_midiNote e)) = ne_filePath e"
  using loadSampleForMidiNote_success[of "ne_midiNote e" fs "ne_filePath e" _ "sampler ed"]
  by (auto simp: importNote_def entry_loads_def)


lemma slots_setNoteMapping [simp]:
  "midiNoteSamples (setNoteMapping b n st) = midiNoteSamples st"
  by (simp add: setNoteMapping_def)

lemma slots_importButtons [simp]:
  "midiNoteSamples (sampler (importButtons bs ed)) = midiNoteSamples (sampler ed)"
  by (induction bs arbitrary: ed) simp_all

lemma slots_beforeNotes [simp]:
  "midiNoteSamples (sampler (beforeNotes d ed)) = midiNoteSamples (sampler ed)"
  by (simp add: beforeNotes_def Let_def split: option.splits)

lemma loadAllSamplesFromJson_notes:
  "doc_midiNotes d = Some ns \<Longrightarrow>
   loadAllSamplesFromJson fs (Some d) ed =
     (True, int (length (filter (entry_loads fs) ns)), int (length (filter (entry_fails fs) ns)),
      fold (importNote fs) ns (beforeNotes d ed))"
  using importNotes_counts[of fs ns 0 0 "beforeNotes d ed"]
  by (cases "importNotes fs ns (0, 0, beforeNotes d ed)")
     (simp add: loadAllSamplesFromJson_def beforeNotes_def Let_def)








subsection \<open>Bindings\<close>

lemma noteMapping_setNoteMapping:
  "0 \<le> b \<Longrightarrow> b < 16 \<Longrightarrow> noteMapping (setNoteMapping b n st) = (noteMapping st)[nat b := n]"
  by (simp add: setNoteMapping_def)

lemma length_noteMapping_setNoteMapping [simp]:
  "length (noteMapping (setNoteMapping b n st)) = length (noteMapping st)"
  by (simp add: setNoteMapping_def)

lemma importButtons_export:
  assumes "\<forall>i\<in>set is. i < 16" and "length (noteMapping (sampler ed)) = 16"
    and "length (noteMapping (sampler cur)) = 16"
    and "\<forall>i<16. i \<notin> set is \<longrightarrow> noteMapping (sampler cur) ! i = noteMapping (sampler ed) ! i"
  shows "\<forall>i<16. noteMapping (sampler (importButtons (map (exportButtonEntry ed) is) cur)) ! i =
           noteMapping (sampler ed) ! i"
  using assms(1,3,4)
proof (induction "is" arbitrary: cur)
  case Nil
  then show ?case by simp
next
  case (Cons j js)
  have j: "j < 16" using Cons.prems(1) by simp
  let ?cur1 = "cur\<lparr>sampler := setNoteMapping (int j) (getNoteMapping (sampler ed) (int j)) (sampler cur)\<rparr>"
  have g: "getNoteMapping (sampler ed) (int j) = noteMapping (sampler ed) ! j"
    using j assms(2) by (simp add: getNoteMapping_def)
  have step: "importButtons (map (exportButtonEntry ed) (j # js)) cur =
      importButtons (map (exportButtonEntry ed) js) ?cur1"
    using j by (simp add: exportButtonEntry_def Let_def)
  have nm: "noteMapping (sampler ?cur1) = (noteMapping (sampler cur))[j := noteMapping (sampler ed) ! j]"
    using j g by (simp add: noteMapping_setNoteMapping)
  show ?case unfolding step
  proof (rule Cons.IH)
    show "\<forall>i\<in>set js. i < 16" using Cons.prems(1) by simp
    show "length (noteMapping (sampler ?cur1)) = 16" using Cons.prems(2) by simp
    show "\<forall>i<16. i \<notin> set js \<longrightarrow> noteMapping (sampler ?cur1) ! i = noteMapping (sampler ed) ! i"
    proof (intro allI impI)
      fix i assume i: "i < 16" "i \<notin> set js"
      show "noteMapping (sampler ?cur1) ! i = noteMapping (sampler ed) ! i"
      proof (cases "i = j")
        case True
        then show ?thesis using nm Cons.prems(2) j by simp
      next
        case False
        with i Cons.prems(3) have "noteMapping (sampler cur) ! i = noteMapping (sampler ed) ! i" by simp
        then show ?thesis using nm False by simp
      qed
    qed
  qed
qed

lemma length_noteMapping_importButtons [simp]:
  "length (noteMapping (sampler (importButtons bs ed))) = length (noteMapping (sampler ed))"
  by (induction bs arbitrary: ed) simp_all

lemma noteMapping_beforeNotes_export:
  assumes "length (noteMapping (sampler ed)) = 16" and "length (noteMapping (sampler t)) = 16"
  shows "noteMapping (sampler (beforeNotes (exportAllSettings ed) t)) = noteMapping (sampler ed)"
proof -
  let ?t1 = "t\<lparr>isOneShotMode := isOneShotMode ed,
               sampler := (sampler t)\<lparr>oneShotEnabled := isOneShotMode ed\<rparr>\<rparr>"
  have b: "beforeNotes (exportAllSettings ed) t =
      importButtons (map (exportButtonEntry ed) [0..<16]) ?t1"
    by (simp add: beforeNotes_def exportAllSettings_def Let_def)
  have "\<forall>i<16. noteMapping (sampler (importButtons (map (exportButtonEntry ed) [0..<16]) ?t1)) ! i =
           noteMapping (sampler ed) ! i"
    by (rule importButtons_export) (use assms in auto)
  moreover have "length (noteMapping (sampler (importButtons (map (exportButtonEntry ed) [0..<16]) ?t1))) = 16"
    using assms(2) by simp
  ultimately show ?thesis unfolding b using assms(1) by (intro nth_equalityI) simp_all
qed

lemma noteMapping_importNote [simp]:
  "noteMapping (sampler (importNote fs e ed)) = noteMapping (sampler ed)"
  by (simp add: importNote_def)

lemma noteMapping_fold_importNote [simp]:
  "noteMapping (sampler (fold (importNote fs) ns ed)) = noteMapping (sampler ed)"
  by (induction ns arbitrary: ed) simp_all

subsection \<open>Loaded notes\<close>

lemma importNote_export:
  assumes fa: "files_available fs (sampler ed)" and i: "i < 128"
    and l: "length (midiNoteSamples (sampler cur)) = 128"
  shows "(isLoaded (midiNoteSamples (sampler ed) ! i) \<and> filePath (midiNoteSamples (sampler ed) ! i) \<noteq> [] \<longrightarrow>
            isLoaded (midiNoteSamples (sampler (importNote fs (exportNoteEntry ed i) cur)) ! i)) \<and>
         (\<not> (isLoaded (midiNoteSamples (sampler ed) ! i) \<and> filePath (midiNoteSamples (sampler ed) ! i) \<noteq> []) \<longrightarrow>
            importNote fs (exportNoteEntry ed i) cur = cur) \<and>
         \<not> entry_fails fs (exportNoteEntry ed i)"
proof (cases "isLoaded (midiNoteSamples (sampler ed) ! i) \<and> filePath (midiNoteSamples (sampler ed) ! i) \<noteq> []")
  case True
  then obtain r where r: "createReaderFor fs (filePath (midiNoteSamples (sampler ed) ! i)) = Some r"
    using fa i by (auto simp: files_available_def)
  have el: "entry_loads fs (exportNoteEntry ed i)"
    using True r i exists_if_reader[OF r] by (simp add: entry_loads_def exportNoteEntry_def)
  have "nat (ne_midiNote (exportNoteEntry ed i)) = i" by (simp add: exportNoteEntry_def)
  with importNote_loads[OF el l] have "isLoaded (midiNoteSamples (sampler (importNote fs (exportNoteEntry ed i) cur)) ! i)"
    by simp
  moreover have "\<not> entry_fails fs (exportNoteEntry ed i)"
    using el by (auto simp: entry_loads_def entry_fails_def)
  ultimately show ?thesis using True by simp
next
  case False
  then have "ne_filePath (exportNoteEntry ed i) = []" by (auto simp: exportNoteEntry_def)
  then have "\<not> entry_fails fs (exportNoteEntry ed i)" "\<not> entry_loads fs (exportNoteEntry ed i)"
    by (simp_all add: entry_loads_def entry_fails_def)
  then show ?thesis using False by (auto simp: importNote_def)
qed

lemma fold_importNote_export:
  assumes fa: "files_available fs (sampler ed)"
  shows "\<forall>i\<in>set is. i < 128 \<Longrightarrow> length (midiNoteSamples (sampler cur)) = 128 \<Longrightarrow>
     (\<forall>n<128. (n \<in> set is \<and> isLoaded (midiNoteSamples (sampler ed) ! n) \<and>
                 filePath (midiNoteSamples (sampler ed) ! n) \<noteq> []) \<or>
               isLoaded (midiNoteSamples (sampler cur) ! n) = isLoaded (midiNoteSamples (sampler ed) ! n)) \<Longrightarrow>
     (\<forall>n<128. isLoaded (midiNoteSamples (sampler (fold (importNote fs) (map (exportNoteEntry ed) is) cur)) ! n)
        = isLoaded (midiNoteSamples (sampler ed) ! n)) \<and>
     filter (entry_fails fs) (map (exportNoteEntry ed) is) = []"
proof (induction "is" arbitrary: cur)
  case Nil
  then show ?case by simp
next
  case (Cons j js)
  have j: "j < 128" using Cons.prems(1) by simp
  let ?cur1 = "importNote fs (exportNoteEntry ed j) cur"
  note ie = importNote_export[OF fa j Cons.prems(2)]
  have l1: "length (midiNoteSamples (sampler ?cur1)) = 128" using Cons.prems(2) by simp
  have inv: "\<forall>n<128. (n \<in> set js \<and> isLoaded (midiNoteSamples (sampler ed) ! n) \<and>
                 filePath (midiNoteSamples (sampler ed) ! n) \<noteq> []) \<or>
               isLoaded (midiNoteSamples (sampler ?cur1) ! n) = isLoaded (midiNoteSamples (sampler ed) ! n)"
  proof (intro allI impI)
    fix n assume n: "n < (128::nat)"
    show "(n \<in> set js \<and> isLoaded (midiNoteSamples (sampler ed) ! n) \<and>
                 filePath (midiNoteSamples (sampler ed) ! n) \<noteq> []) \<or>
               isLoaded (midiNoteSamples (sampler ?cur1) ! n) = isLoaded (midiNoteSamples (sampler ed) ! n)"
    proof (cases "n = j")
      case True
      show ?thesis
      proof (cases "isLoaded (midiNoteSamples (sampler ed) ! j) \<and> filePath (midiNoteSamples (sampler ed) ! j) \<noteq> []")
        case True
        with ie \<open>n = j\<close> show ?thesis by simp
      next
        case False
        with ie have "?cur1 = cur" by simp
        with Cons.prems(3) n False \<open>n = j\<close> show ?thesis by auto
      qed
    next
      case False
      have "int n \<noteq> ne_midiNote (exportNoteEntry ed j)" using False by (simp add: exportNoteEntry_def)
      from importNote_other[of "int n", OF _ this, of fs cur]
      have "midiNoteSamples (sampler ?cur1) ! n = midiNoteSamples (sampler cur) ! n" by simp
      with Cons.prems(3) n False show ?thesis by auto
    qed
  qed
  have js: "\<forall>i\<in>set js. i < 128" using Cons.prems(1) by simp
  from Cons.IH[OF js l1 inv] ie show ?case by simp
qed

lemma roundtrip_into:
  assumes fa: "files_available fs (sampler ed)" and tg: "import_target (sampler t) (sampler ed)"
  shows "\<exists>l ed'. loadAllSamplesFromJson fs (Some (exportAllSettings ed)) t = (True, l, 0, ed') \<and>
     same_setup (sampler ed') (sampler ed)"
proof -
  let ?d = "exportAllSettings ed"
  let ?ns = "map (exportNoteEntry ed) [0..<128]"
  let ?t2 = "beforeNotes ?d t"
  have dn: "doc_midiNotes ?d = Some ?ns" by (simp add: exportAllSettings_def)
  have l2: "length (midiNoteSamples (sampler ?t2)) = 128" using tg by (simp add: import_target_def)
  have inv: "\<forall>n<128. (n \<in> set [0..<128] \<and> isLoaded (midiNoteSamples (sampler ed) ! n) \<and>
                 filePath (midiNoteSamples (sampler ed) ! n) \<noteq> []) \<or>
               isLoaded (midiNoteSamples (sampler ?t2) ! n) = isLoaded (midiNoteSamples (sampler ed) ! n)"
    using tg by (auto simp: import_target_def)
  have r: "(\<forall>n<128. isLoaded (midiNoteSamples (sampler (fold (importNote fs) ?ns ?t2)) ! n)
        = isLoaded (midiNoteSamples (sampler ed) ! n)) \<and>
     filter (entry_fails fs) ?ns = []"
    by (rule fold_importNote_export[OF fa _ l2 inv]) simp
  have nm: "noteMapping (sampler (fold (importNote fs) ?ns ?t2)) = noteMapping (sampler ed)"
    using noteMapping_beforeNotes_export[of ed t] fa tg
    by (simp add: files_available_def import_target_def)
  show ?thesis
    unfolding loadAllSamplesFromJson_notes[OF dn]
    using r nm by (simp add: same_setup_def)
qed

lemma files_available_cong:
  "midiNoteSamples st' = midiNoteSamples st \<Longrightarrow> length (noteMapping st') = length (noteMapping st) \<Longrightarrow>
   files_available fs st' = files_available fs st"
  by (simp add: files_available_def)

lemma slots_clearSample [simp]: "midiNoteSamples (clearSample b st) = midiNoteSamples st"
  by (simp add: clearSample_def split: prod.splits)

lemma noteMapping_clearSample [simp]: "noteMapping (clearSample b st) = noteMapping st"
  by (simp add: clearSample_def split: prod.splits)

lemma files_available_loadSampleForMidiNote:
  assumes "files_available fs st"
  shows "files_available fs (snd (loadSampleForMidiNote fs n f st))"
proof (cases "0 \<le> n \<and> n < 128")
  case False
  then show ?thesis using assms by (auto simp: loadSampleForMidiNote_def)
next
  case True
  have len: "length (midiNoteSamples st) = 128" using assms by (simp add: files_available_def)
  have nn: "nat n < 128" using True by linarith
  have "\<forall>k<128. isLoaded (midiNoteSamples (snd (loadSampleForMidiNote fs n f st)) ! k) \<longrightarrow>
         createReaderFor fs (filePath (midiNoteSamples (snd (loadSampleForMidiNote fs n f st)) ! k)) \<noteq> None"
  proof (intro allI impI)
    fix k assume k: "k < (128::nat)"
      and ld: "isLoaded (midiNoteSamples (snd (loadSampleForMidiNote fs n f st)) ! k)"
    show "createReaderFor fs (filePath (midiNoteSamples (snd (loadSampleForMidiNote fs n f st)) ! k)) \<noteq> None"
    proof (cases "k = nat n")
      case True
      show ?thesis
      proof (cases "createReaderFor fs f")
        case None
        with ld True \<open>0 \<le> n \<and> n < 128\<close> len nn show ?thesis
          by (simp add: loadSampleForMidiNote_def clearMidiNoteSample_def ButtonSample_clear_def
              split: prod.splits)
      next
        case (Some r)
        with loadSampleForMidiNote_success[of n fs f r st] \<open>0 \<le> n \<and> n < 128\<close> len True
        show ?thesis by simp
      qed
    next
      case False
      then have "int k \<noteq> n" using \<open>0 \<le> n \<and> n < 128\<close> by auto
      from slots_loadSampleForMidiNote_other[of "int k", OF _ this, of fs f st]
      have "midiNoteSamples (snd (loadSampleForMidiNote fs n f st)) ! k = midiNoteSamples st ! k"
        by simp
      with ld k assms show ?thesis by (simp add: files_available_def)
    qed
  qed
  then show ?thesis using assms by (simp add: files_available_def)
qed

lemma files_available_setNoteMapping [simp]:
  "files_available fs (setNoteMapping b n st) = files_available fs st"
  by (rule files_available_cong) simp_all

lemma files_available_handleIncomingMidiMessage:
  "files_available fs (sampler ed) \<Longrightarrow> files_available fs (sampler (handleIncomingMidiMessage m ed))"
  by (cases m)
     (simp_all add: handleIncomingMidiMessage_def handleMidiMessage_def trackNote_def Let_def
        files_available_def)

lemma files_available_buttonClicked:
  "files_available fs (sampler ed) \<Longrightarrow> files_available fs (sampler (buttonClicked b ed))"
  by (cases b) (simp_all add: Let_def files_available_def)

lemma files_available_loadSampleForButton:
  assumes "files_available fs (sampler ed)"
  shows "files_available fs (sampler (loadSampleForButton fs b f ed))"
proof -
  have a: "files_available fs (snd (loadSampleForMidiNote fs (getNoteMapping (sampler ed) b) f (sampler ed)))"
    by (rule files_available_loadSampleForMidiNote[OF assms])
  show ?thesis
  proof (cases "loadSampleForMidiNote fs (getNoteMapping (sampler ed) b) f (sampler ed)")
    case (Pair ok st)
    with a have "files_available fs st" by simp
    then have "files_available fs (st\<lparr>midiCollector := midiCollector st @ [NoteOn (getNoteMapping (sampler ed) b) 100]\<rparr>)"
      by (simp add: files_available_def)
    with Pair assms \<open>files_available fs st\<close> show ?thesis
      by (auto simp: loadSampleForButton_def Let_def startNoteOffTimer_def addMessageToQueue_def
          split: bool.splits)
  qed
qed

lemma files_available_mouseDown:
  assumes "files_available fs (sampler ed)"
  shows "files_available fs (sampler (mouseDown fs r b f ed))"
proof -
  have "files_available fs (clearSample b (sampler ed))"
    using assms by (simp add: files_available_def)
  moreover have "files_available fs ((sampler ed)\<lparr>midiCollector := midiCollector (sampler ed) @ [NoteOn (getNoteMapping (sampler ed) b) 100]\<rparr>)"
    using assms by (simp add: files_available_def)
  ultimately show ?thesis
    using assms files_available_loadSampleForButton[OF assms, of b f]
    by (simp add: mouseDown_def Let_def startNoteOffTimer_def addMessageToQueue_def)
qed

lemma files_available_noteOffTimerElapsed:
  "files_available fs (sampler ed) \<Longrightarrow> files_available fs (sampler (noteOffTimerElapsed ed))"
  by (simp add: noteOffTimerElapsed_def addMessageToQueue_def files_available_def)

lemma slots_handleMidiEvent [simp]:
  "midiNoteSamples (handleMidiEvent steal m st) = midiNoteSamples st"
  "noteMapping (handleMidiEvent steal m st) = noteMapping st"
  by (cases m; simp)+

lemma slots_fold_handleMidiEvent [simp]:
  "midiNoteSamples (fold (handleMidiEvent steal) ms st) = midiNoteSamples st"
  "noteMapping (fold (handleMidiEvent steal) ms st) = noteMapping st"
  by (induction ms arbitrary: st) simp_all

lemma files_available_processBlock:
  assumes "processBlock steal buf n ms st = Inr (st', out)" and "files_available fs st"
  shows "files_available fs st'"
proof -
  let ?st1 = "fold (handleMidiEvent steal) (ms @ midiCollector st) (st\<lparr>midiCollector := []\<rparr>)"
  from assms(1) obtain vs where "st' = ?st1\<lparr>voices := vs\<rparr>"
    by (auto simp: processBlock_def Let_def split: sum.splits)
  then have "midiNoteSamples st' = midiNoteSamples st" "noteMapping st' = noteMapping st" by simp_all
  with assms(2) show ?thesis by (simp add: files_available_def)
qed

lemma files_available_importNote:
  "files_available fs (sampler ed) \<Longrightarrow> files_available fs (sampler (importNote fs e ed))"
  by (simp add: importNote_def files_available_loadSampleForMidiNote)

lemma files_available_fold_importNote:
  "files_available fs (sampler ed) \<Longrightarrow> files_available fs (sampler (fold (importNote fs) ns ed))"
  by (induction ns arbitrary: ed) (simp_all add: files_available_importNote)

lemma files_available_beforeNotes:
  "files_available fs (sampler ed) \<Longrightarrow> files_available fs (sampler (beforeNotes d ed))"
  by (simp add: files_available_def beforeNotes_def Let_def split: option.splits)

lemma loadAllSamplesFromJson_editor:
  "snd (snd (snd (loadAllSamplesFromJson fs j ed))) =
     (case j of None \<Rightarrow> ed
      | Some d \<Rightarrow> (case doc_midiNotes d of None \<Rightarrow> beforeNotes d ed
                   | Some ns \<Rightarrow> fold (importNote fs) ns (beforeNotes d ed)))"
proof (cases j)
  case None
  then show ?thesis by (simp add: loadAllSamplesFromJson_def)
next
  case (Some d)
  show ?thesis
  proof (cases "doc_midiNotes d")
    case None
    with Some show ?thesis by (simp add: loadAllSamplesFromJson_def beforeNotes_def Let_def)
  next
    case (Some ns)
    with \<open>j = Some d\<close> loadAllSamplesFromJson_notes[OF Some, of fs ed] show ?thesis by simp
  qed
qed

lemma files_available_loadAllSamplesFromJson:
  "files_available fs (sampler ed) \<Longrightarrow>
   files_available fs (sampler (snd (snd (snd (loadAllSamplesFromJson fs j ed)))))"
  unfolding loadAllSamplesFromJson_editor
  by (simp add: files_available_beforeNotes files_available_fold_importNote split: option.splits)

lemma step_files_available:
  assumes "step fs steal e ed = Inr ed'" and "files_available fs (sampler ed)"
  shows "files_available fs (sampler ed')"
proof (cases e)
  case (IncomingMidi m)
  with assms show ?thesis by (auto simp: files_available_handleIncomingMidiMessage)
next
  case (ButtonClicked b)
  with assms show ?thesis by (auto simp: files_available_buttonClicked)
next
  case (MouseDown r b f)
  with assms show ?thesis by (auto simp: files_available_mouseDown)
next
  case (MouseDoubleClick b f)
  with assms show ?thesis by (auto simp: files_available_loadSampleForButton)
next
  case NoteOffTimer
  with assms show ?thesis by (auto simp: files_available_noteOffTimerElapsed)
next
  case (AudioBlock buf n)
  with assms(1) obtain st out where p: "processBlock steal buf n [] (sampler ed) = Inr (st, out)"
    and e': "ed' = ed\<lparr>sampler := st\<rparr>" by (auto split: sum.splits)
  from files_available_processBlock[OF p assms(2)] e' show ?thesis by simp
next
  case (ImportSettings j)
  with assms(1) have "ed' = snd (snd (snd (loadAllSamplesFromJson fs j ed)))"
    by (auto split: prod.splits)
  with files_available_loadAllSamplesFromJson[OF assms(2)] show ?thesis by simp
qed

lemma run_files_available:
  "run fs steal es ed = Inr ed' \<Longrightarrow> files_available fs (sampler ed) \<Longrightarrow>
   files_available fs (sampler ed')"
proof (induction es arbitrary: ed)
  case Nil
  then show ?case by simp
next
  case (Cons e es)
  from Cons.prems(1) obtain ed1 where s: "step fs steal e ed = Inr ed1"
    and r: "run fs steal es ed1 = Inr ed'"
    by (auto split: sum.splits)
  from Cons.IH[OF r step_files_available[OF s Cons.prems(2)]] show ?case .
qed

lemma files_available_init:
  "files_available fs (sampler (SamplerEditor_init SamplerPlugin_init))"
  by (simp add: files_available_def SamplerEditor_init_def SamplerPlugin_init_def
      ButtonSample_init_def)

lemma import_target_self:
  "files_available fs (sampler ed) \<Longrightarrow> import_target (sampler ed) (sampler ed)"
  by (simp add: import_target_def files_available_def)

lemma import_target_init:
  assumes "files_available fs (sampler ed)" and "createReaderFor fs [] = None"
  shows "import_target (sampler (SamplerEditor_init SamplerPlugin_init)) (sampler ed)"
proof -
  have "\<forall>n<128. isLoaded (midiNoteSamples (sampler ed) ! n) \<longrightarrow>
      filePath (midiNoteSamples (sampler ed) ! n) \<noteq> []"
    using assms by (auto simp: files_available_def)
  then show ?thesis
    by (auto simp: import_target_def SamplerEditor_init_def SamplerPlugin_init_def
        ButtonSample_init_def)
qed

text \<open>
  C7. In every state the program reaches from its start state under a file system, each
  loaded note names a file that the file system decodes. From any such state, exporting
  the settings and importing the exported document under the same file system, into that
  state, succeeds without a failure and leaves the sixteen bindings and the set of loaded
  notes as they were; importing it into the start state instead (the program started
  afresh) produces the same bindings and the same set of loaded notes, given that the
  empty path names no decodable file.
\<close>

theorem export_import_roundtrip:
  "(run fs steal es (SamplerEditor_init SamplerPlugin_init) = Inr ed \<longrightarrow>
      files_available fs (sampler ed)) \<and>
   (files_available fs (sampler ed) \<longrightarrow>
      (\<exists>l ed'. loadAllSamplesFromJson fs (Some (exportAllSettings ed)) ed = (True, l, 0, ed') \<and>
         same_setup (sampler ed') (sampler ed))) \<and>
   (files_available fs (sampler ed) \<and> createReaderFor fs [] = None \<longrightarrow>
      (\<exists>l ed'. loadAllSamplesFromJson fs (Some (exportAllSettings ed))
                 (SamplerEditor_init SamplerPlugin_init) = (True, l, 0, ed') \<and>
         same_setup (sampler ed') (sampler ed)))"
proof (intro conjI impI)
  assume "run fs steal es (SamplerEditor_init SamplerPlugin_init) = Inr ed"
  then show "files_available fs (sampler ed)"
    by (rule run_files_available) (rule files_available_init)
next
  assume fa: "files_available fs (sampler ed)"
  show "\<exists>l ed'. loadAllSamplesFromJson fs (Some (exportAllSettings ed)) ed = (True, l, 0, ed') \<and>
         same_setup (sampler ed') (sampler ed)"
    by (rule roundtrip_into[OF fa import_target_self[OF fa]])
next
  assume a: "files_available fs (sampler ed) \<and> createReaderFor fs [] = None"
  then have fa: "files_available fs (sampler ed)" and e: "createReaderFor fs [] = None" by simp_all
  show "\<exists>l ed'. loadAllSamplesFromJson fs (Some (exportAllSettings ed))
                 (SamplerEditor_init SamplerPlugin_init) = (True, l, 0, ed') \<and>
         same_setup (sampler ed') (sampler ed)"
    by (rule roundtrip_into[OF fa import_target_init[OF fa e]])
qed

lemma setup_run:
  "case run example_fs no_steal
     [MouseDoubleClick 0 ''a.wav'', ButtonClicked MidiLearnButton, MouseDown False 5 [],
      IncomingMidi (NoteOn 72 100)] example_editor of
     Inr ed \<Rightarrow> isLoaded (midiNoteSamples (sampler ed) ! 36) \<and> getNoteMapping (sampler ed) 5 = 72
   | Inl e \<Rightarrow> False"
  by (simp add: control_defs)

theorem export_import_roundtrip_witness:
  "\<exists>ed l ed' l2 ed2.
     run example_fs no_steal
       [MouseDoubleClick 0 ''a.wav'', ButtonClicked MidiLearnButton, MouseDown False 5 [],
        IncomingMidi (NoteOn 72 100)] example_editor = Inr ed \<and>
     isLoaded (midiNoteSamples (sampler ed) ! 36) \<and> getNoteMapping (sampler ed) 5 = 72 \<and>
     files_available example_fs (sampler ed) \<and>
     loadAllSamplesFromJson example_fs (Some (exportAllSettings ed)) ed = (True, l, 0, ed') \<and>
     same_setup (sampler ed') (sampler ed) \<and>
     loadAllSamplesFromJson example_fs (Some (exportAllSettings ed)) example_editor =
       (True, l2, 0, ed2) \<and>
     same_setup (sampler ed2) (sampler ed)"
proof -
  let ?es = "[MouseDoubleClick 0 ''a.wav'', ButtonClicked MidiLearnButton, MouseDown False 5 [],
        IncomingMidi (NoteOn 72 100)]"
  obtain ed where ed: "run example_fs no_steal ?es example_editor = Inr ed"
    and a: "isLoaded (midiNoteSamples (sampler ed) ! 36)" "getNoteMapping (sampler ed) 5 = 72"
    using setup_run by (cases "run example_fs no_steal ?es example_editor") auto
  note t = export_import_roundtrip[of example_fs no_steal ?es ed]
  from t ed have fa: "files_available example_fs (sampler ed)" by (simp add: example_editor_def)
  from t fa obtain l ed' where
    r1: "loadAllSamplesFromJson example_fs (Some (exportAllSettings ed)) ed = (True, l, 0, ed')"
      "same_setup (sampler ed') (sampler ed)" by blast
  from t fa obtain l2 ed2 where
    r2: "loadAllSamplesFromJson example_fs (Some (exportAllSettings ed)) example_editor = (True, l2, 0, ed2)"
      "same_setup (sampler ed2) (sampler ed)"
    unfolding example_editor_def using example_files_gone(3) by blast
  from ed a fa r1 r2 show ?thesis by blast
qed

end
